theory Spec2Isabelle
  imports Main
begin

text \<open>
  A model of the device-pairing service of the HTTP volume control API
  (\<open>src/services/pairing-service.ts\<close>, class \<open>PairingService\<close>): pairing codes,
  sessions and the rate limit on pairing attempts. Every method is a function from its
  arguments, the clock values it reads, the random values it draws and the state of
  the service to its result and the new state; an error thrown is a result \<open>Inl\<close>.
\<close>

section \<open>Data model (src/types/pairing.ts)\<close>

text \<open>
  A JavaScript \<open>Date\<close> is modelled by its \<open>getTime()\<close> value, the number of
  milliseconds since the epoch, as an \<open>int\<close>; \<open>a < b\<close> on dates is \<open>a < b\<close> on these
  numbers. An optional string field (\<open>deviceName?: string\<close>) is a \<open>string option\<close>.
  The field names of the two interfaces overlap, so the fields of \<open>PairingCode\<close> carry
  the prefix \<open>pc_\<close> and those of \<open>Session\<close> the prefix \<open>s_\<close>.
\<close>

record PairingCode =
  pc_code :: string
  pc_sessionId :: string
  pc_createdAt :: int
  pc_expiresAt :: int
  pc_deviceName :: "string option"
  pc_ipAddress :: "string option"

record Session =
  s_id :: string
  s_token :: string
  s_deviceName :: string
  s_createdAt :: int
  s_lastUsedAt :: int
  s_expiresAt :: int
  s_ipAddress :: "string option"
  s_userAgent :: "string option"

text \<open>The value type of \<open>rateLimitMap\<close>: \<open>{ attempts: number; resetAt: Date }\<close>.\<close>

record RateLimit =
  attempts :: int
  resetAt :: int

text \<open>\<open>ERROR_CODES\<close>: the messages of the errors the service throws.\<close>

datatype error =
    PAIRING_CODE_INVALID
  | PAIRING_CODE_EXPIRED
  | PAIRING_RATE_LIMITED
  | SESSION_INVALID
  | SESSION_EXPIRED
  | SESSION_LIMIT_REACHED
  | UNAUTHORIZED

text \<open>
  The environment variables the service reads with \<open>parseInt(process.env.X || default)\<close>,
  as the numbers they parse to, and \<open>SESSION_SLIDING_EXPIRY === 'true'\<close> as a flag.
  The service reads them anew at every call; the model passes the record to every
  operation.
\<close>

record config =
  PAIRING_CODE_LENGTH :: nat
  PAIRING_CODE_EXPIRY :: int
  PAIRING_MAX_ATTEMPTS :: int
  SESSION_TOKEN_EXPIRY :: int
  SESSION_MAX_PER_USER :: int
  SESSION_SLIDING_EXPIRY :: bool

definition default_config :: config where
  "default_config =
     \<lparr>PAIRING_CODE_LENGTH = 6, PAIRING_CODE_EXPIRY = 300, PAIRING_MAX_ATTEMPTS = 3,
      SESSION_TOKEN_EXPIRY = 2592000, SESSION_MAX_PER_USER = 10,
      SESSION_SLIDING_EXPIRY = False\<rparr>"

section \<open>JavaScript \<open>Map\<close> as an insertion-ordered association list\<close>

text \<open>
  A \<open>Map\<close> iterates in insertion order; \<open>set\<close> on a key that is present replaces the
  value where it stands, \<open>set\<close> on a new key appends, \<open>delete\<close> removes the entry.
  \<open>validateSession\<close> scans the sessions in that order, so the order is kept.
\<close>

primrec map_get :: "'k \<Rightarrow> ('k \<times> 'v) list \<Rightarrow> 'v option" where
  "map_get k [] = None"
| "map_get k (p # ps) = (if fst p = k then Some (snd p) else map_get k ps)"

primrec map_set :: "'k \<Rightarrow> 'v \<Rightarrow> ('k \<times> 'v) list \<Rightarrow> ('k \<times> 'v) list" where
  "map_set k v [] = [(k, v)]"
| "map_set k v (p # ps) = (if fst p = k then (k, v) # ps else p # map_set k v ps)"

definition map_delete :: "'k \<Rightarrow> ('k \<times> 'v) list \<Rightarrow> ('k \<times> 'v) list" where
  "map_delete k ps = filter (\<lambda>p. fst p \<noteq> k) ps"

text \<open>The keys of a \<open>Map\<close> are pairwise different.\<close>

definition wf_map :: "('k \<times> 'v) list \<Rightarrow> bool" where
  "wf_map ps = distinct (map fst ps)"

section \<open>Strings\<close>

text \<open>
  \<open>String.prototype.toUpperCase\<close> on the ASCII letters: \<open>a\<close>..\<open>z\<close> (codes 97..122)
  go to \<open>A\<close>..\<open>Z\<close>, every other character stays.
\<close>

definition upper_char :: "char \<Rightarrow> char" where
  "upper_char c =
     (let n = (of_char c :: nat) in if 97 \<le> n \<and> n \<le> 122 then char_of (n - 32) else c)"

definition toUpperCase :: "string \<Rightarrow> string" where
  "toUpperCase s = map upper_char s"

text \<open>
  \<open>x || y\<close> and \<open>if (x && ...)\<close> on an optional string: \<open>undefined\<close> and the empty
  string are falsy.
\<close>

definition truthy :: "string option \<Rightarrow> bool" where
  "truthy x = (case x of None \<Rightarrow> False | Some s \<Rightarrow> s \<noteq> [])"

section \<open>The service state (class \<open>PairingService\<close>)\<close>

text \<open>
  The three maps of the class, and the content of \<open>data/sessions.json\<close> as
  \<open>saveSessions\<close> last wrote it. A write to the file is taken to succeed.
\<close>

record state =
  pairingCodes :: "(string \<times> PairingCode) list"
  sessions :: "(string \<times> Session) list"
  rateLimitMap :: "(string \<times> RateLimit) list"
  sessionsFile :: "Session list"

definition empty_state :: state where
  "empty_state = \<lparr>pairingCodes = [], sessions = [], rateLimitMap = [], sessionsFile = []\<rparr>"

definition saveSessions :: "state \<Rightarrow> state" where
  "saveSessions st = st\<lparr>sessionsFile := map snd (sessions st)\<rparr>"

subsection \<open>Random generation\<close>

text \<open>
  \<open>generatePairingCode\<close> appends \<open>chars[Math.floor(Math.random() * chars.length)]\<close>
  for \<open>i = 0, ..., PAIRING_CODE_LENGTH - 1\<close>. The model takes the index drawn in
  iteration \<open>i\<close> as \<open>draws i\<close>; an index is below \<open>chars.length\<close> by construction,
  which \<open>mod\<close> expresses. The results of \<open>generateSessionId\<close> and
  \<open>generateToken\<close> are arguments of the operations that call them.
\<close>

definition chars :: string where
  "chars = ''ABCDEFGHJKLMNPQRSTUVWXYZ23456789''"

definition generatePairingCode :: "config \<Rightarrow> (nat \<Rightarrow> nat) \<Rightarrow> string" where
  "generatePairingCode cfg draws =
     map (\<lambda>i. chars ! (draws i mod length chars)) [0..<PAIRING_CODE_LENGTH cfg]"

subsection \<open>The periodic sweep\<close>

definition cleanupExpiredCodes :: "int \<Rightarrow> state \<Rightarrow> state" where
  "cleanupExpiredCodes now st =
     st\<lparr>pairingCodes := filter (\<lambda>p. \<not> pc_expiresAt (snd p) < now) (pairingCodes st)\<rparr>"

definition cleanupExpiredSessions :: "int \<Rightarrow> state \<Rightarrow> state" where
  "cleanupExpiredSessions now st =
     (let kept = filter (\<lambda>p. \<not> s_expiresAt (snd p) < now) (sessions st);
          cleaned = length (sessions st) - length kept;
          st' = st\<lparr>sessions := kept\<rparr>
      in if cleaned > 0 then saveSessions st' else st')"

definition cleanupRateLimits :: "int \<Rightarrow> state \<Rightarrow> state" where
  "cleanupRateLimits now st =
     st\<lparr>rateLimitMap := filter (\<lambda>p. \<not> resetAt (snd p) < now) (rateLimitMap st)\<rparr>"

subsection \<open>Rate limiting and pairing\<close>

definition checkRateLimit :: "config \<Rightarrow> string \<Rightarrow> int \<Rightarrow> state \<Rightarrow> bool \<times> state" where
  "checkRateLimit cfg ip now st =
     (case map_get ip (rateLimitMap st) of
        None \<Rightarrow>
          (True, st\<lparr>rateLimitMap :=
             map_set ip \<lparr>attempts = 1, resetAt = now + 60000\<rparr> (rateLimitMap st)\<rparr>)
      | Some limit \<Rightarrow>
          if resetAt limit < now then
            (True, st\<lparr>rateLimitMap :=
               map_set ip \<lparr>attempts = 1, resetAt = now + 60000\<rparr> (rateLimitMap st)\<rparr>)
          else if attempts limit \<ge> PAIRING_MAX_ATTEMPTS cfg then (False, st)
          else
            (True, st\<lparr>rateLimitMap :=
               map_set ip (limit\<lparr>attempts := attempts limit + 1\<rparr>) (rateLimitMap st)\<rparr>))"

text \<open>
  \<open>initiatePairing\<close>. \<open>draws\<close> and \<open>sid\<close> are what \<open>generatePairingCode\<close> and
  \<open>generateSessionId\<close> draw; \<open>tcheck\<close> is the clock read inside \<open>checkRateLimit\<close>
  and \<open>now\<close> the one read afterwards. The result is \<open>{code, sessionId, expiresIn}\<close>.
\<close>

definition initiatePairing ::
  "config \<Rightarrow> (nat \<Rightarrow> nat) \<Rightarrow> string \<Rightarrow> int \<Rightarrow> int \<Rightarrow> string option \<Rightarrow> string option \<Rightarrow> state
     \<Rightarrow> (error + string \<times> string \<times> int) \<times> state" where
  "initiatePairing cfg draws sid tcheck now deviceName ipAddress st =
     (let (allowed, st1) =
            (if truthy ipAddress then checkRateLimit cfg (the ipAddress) tcheck st
             else (True, st))
      in if \<not> allowed then (Inl PAIRING_RATE_LIMITED, st1)
         else
           let code = generatePairingCode cfg draws;
               expirySeconds = PAIRING_CODE_EXPIRY cfg;
               pairingCode =
                 \<lparr>pc_code = code, pc_sessionId = sid, pc_createdAt = now,
                  pc_expiresAt = now + expirySeconds * 1000,
                  pc_deviceName = deviceName, pc_ipAddress = ipAddress\<rparr>
           in (Inr (code, sid, expirySeconds),
               st1\<lparr>pairingCodes := map_set code pairingCode (pairingCodes st1)\<rparr>))"

text \<open>
  \<open>completePairing\<close>. The lookup is by \<open>code.toUpperCase()\<close>; both
  \<open>this.pairingCodes.delete(code)\<close> calls are by \<open>code\<close> as it was passed.
  \<open>token\<close> is what \<open>generateToken\<close> draws.
\<close>

definition completePairing ::
  "config \<Rightarrow> string \<Rightarrow> int \<Rightarrow> string \<Rightarrow> string \<Rightarrow> string option \<Rightarrow> state
     \<Rightarrow> (error + Session) \<times> state" where
  "completePairing cfg token now code sessionId ipAddress st =
     (case map_get (toUpperCase code) (pairingCodes st) of
        None \<Rightarrow> (Inl PAIRING_CODE_INVALID, st)
      | Some pairingCode \<Rightarrow>
          if pc_sessionId pairingCode \<noteq> sessionId then (Inl PAIRING_CODE_INVALID, st)
          else if pc_expiresAt pairingCode < now then
            (Inl PAIRING_CODE_EXPIRED,
             st\<lparr>pairingCodes := map_delete code (pairingCodes st)\<rparr>)
          else if int (length (sessions st)) \<ge> SESSION_MAX_PER_USER cfg then
            (Inl SESSION_LIMIT_REACHED, st)
          else
            let session =
                  \<lparr>s_id = sessionId, s_token = token,
                   s_deviceName =
                     (if truthy (pc_deviceName pairingCode)
                      then the (pc_deviceName pairingCode) else ''Unknown Device''),
                   s_createdAt = now, s_lastUsedAt = now,
                   s_expiresAt = now + SESSION_TOKEN_EXPIRY cfg * 1000,
                   s_ipAddress =
                     (if truthy ipAddress then ipAddress else pc_ipAddress pairingCode),
                   s_userAgent = None\<rparr>
            in (Inr session,
                saveSessions
                  (st\<lparr>sessions := map_set sessionId session (sessions st),
                      pairingCodes := map_delete code (pairingCodes st)\<rparr>)))"

subsection \<open>Sessions\<close>

text \<open>
  \<open>validateSession\<close> returns at the first session, in map order, whose token is the
  one given: expired, it is deleted and the result is \<open>null\<close>; live, the session object
  in the map is updated and returned.
\<close>

definition validateSession ::
  "config \<Rightarrow> string \<Rightarrow> int \<Rightarrow> state \<Rightarrow> Session option \<times> state" where
  "validateSession cfg token now st =
     (case find (\<lambda>p. s_token (snd p) = token) (sessions st) of
        None \<Rightarrow> (None, st)
      | Some (key, session) \<Rightarrow>
          if s_expiresAt session < now then
            (None, saveSessions (st\<lparr>sessions := map_delete key (sessions st)\<rparr>))
          else
            let session' =
                  session\<lparr>s_lastUsedAt := now,
                          s_expiresAt :=
                            (if SESSION_SLIDING_EXPIRY cfg
                             then now + SESSION_TOKEN_EXPIRY cfg * 1000
                             else s_expiresAt session)\<rparr>
            in (Some session',
                saveSessions (st\<lparr>sessions := map_set key session' (sessions st)\<rparr>)))"

definition getSessions :: "int \<Rightarrow> state \<Rightarrow> Session list \<times> state" where
  "getSessions now st =
     (let st' = cleanupExpiredSessions now st in (map snd (sessions st'), st'))"

definition getSession :: "string \<Rightarrow> state \<Rightarrow> Session option" where
  "getSession sessionId st = map_get sessionId (sessions st)"

definition revokeSession :: "string \<Rightarrow> state \<Rightarrow> bool \<times> state" where
  "revokeSession sessionId st =
     (let deleted = (map_get sessionId (sessions st) \<noteq> None);
          st' = st\<lparr>sessions := map_delete sessionId (sessions st)\<rparr>
      in if deleted then (True, saveSessions st') else (False, st'))"

definition revokeAllSessions :: "state \<Rightarrow> nat \<times> state" where
  "revokeAllSessions st =
     (let count = length (sessions st)
      in (count, saveSessions (st\<lparr>sessions := []\<rparr>)))"

subsection \<open>The objects the operations build\<close>

text \<open>The session object \<open>completePairing\<close> builds, as a function of what it is built from.\<close>

definition new_session ::
  "config \<Rightarrow> string \<Rightarrow> int \<Rightarrow> string \<Rightarrow> string option \<Rightarrow> PairingCode \<Rightarrow> Session" where
  "new_session cfg token now sessionId ipAddress pairingCode =
     \<lparr>s_id = sessionId, s_token = token,
      s_deviceName =
        (if truthy (pc_deviceName pairingCode)
         then the (pc_deviceName pairingCode) else ''Unknown Device''),
      s_createdAt = now, s_lastUsedAt = now,
      s_expiresAt = now + SESSION_TOKEN_EXPIRY cfg * 1000,
      s_ipAddress = (if truthy ipAddress then ipAddress else pc_ipAddress pairingCode),
      s_userAgent = None\<rparr>"

text \<open>
  The update \<open>validateSession\<close> makes to a live session: \<open>lastUsedAt\<close>, and
  \<open>expiresAt\<close> under sliding expiry.
\<close>

definition touch :: "config \<Rightarrow> int \<Rightarrow> Session \<Rightarrow> Session" where
  "touch cfg now session =
     session\<lparr>s_lastUsedAt := now,
             s_expiresAt :=
               (if SESSION_SLIDING_EXPIRY cfg then now + SESSION_TOKEN_EXPIRY cfg * 1000
                else s_expiresAt session)\<rparr>"

section \<open>Operations and runs\<close>

text \<open>
  The calls the service takes, each with its arguments, what it draws and the clock
  values it reads: the public methods and the three sweeps of the cleanup interval.
  \<open>step\<close> is the effect of one call on the state, \<open>run\<close> that of a sequence.
\<close>

datatype op =
    Initiate "nat \<Rightarrow> nat" string int int "string option" "string option"
  | Complete string int string string "string option"
  | Validate string int
  | ListSessions int
  | GetSession string
  | Revoke string
  | RevokeAll
  | SweepCodes int
  | SweepSessions int
  | SweepRateLimits int

fun step :: "config \<Rightarrow> op \<Rightarrow> state \<Rightarrow> state" where
  "step cfg (Initiate draws sid tcheck now deviceName ipAddress) st =
     snd (initiatePairing cfg draws sid tcheck now deviceName ipAddress st)"
| "step cfg (Complete token now code sessionId ipAddress) st =
     snd (completePairing cfg token now code sessionId ipAddress st)"
| "step cfg (Validate token now) st = snd (validateSession cfg token now st)"
| "step cfg (ListSessions now) st = snd (getSessions now st)"
| "step cfg (GetSession sessionId) st = st"
| "step cfg (Revoke sessionId) st = snd (revokeSession sessionId st)"
| "step cfg RevokeAll st = snd (revokeAllSessions st)"
| "step cfg (SweepCodes now) st = cleanupExpiredCodes now st"
| "step cfg (SweepSessions now) st = cleanupExpiredSessions now st"
| "step cfg (SweepRateLimits now) st = cleanupRateLimits now st"

fun run :: "config \<Rightarrow> op list \<Rightarrow> state \<Rightarrow> state" where
  "run cfg [] st = st"
| "run cfg (x # xs) st = run cfg xs (step cfg x st)"

text \<open>
  Successive \<open>validateSession\<close> calls with one token, at the times given: the results
  in order, and the final state.
\<close>

fun validate_all ::
  "config \<Rightarrow> string \<Rightarrow> int list \<Rightarrow> state \<Rightarrow> Session option list \<times> state" where
  "validate_all cfg token [] st = ([], st)"
| "validate_all cfg token (t # ts) st =
     (let (r, st') = validateSession cfg token t st;
          (rs, st'') = validate_all cfg token ts st'
      in (r # rs, st''))"

text \<open>
  The clock values an operation reads, in the order it reads them
  (\<open>initiatePairing\<close> reads the clock in \<open>checkRateLimit\<close> and again afterwards;
  \<open>getSession\<close> and the two revocations read none).
\<close>

fun clock_of :: "op \<Rightarrow> int list" where
  "clock_of (Initiate draws sid tcheck now deviceName ipAddress) = [tcheck, now]"
| "clock_of (Complete token now code sessionId ipAddress) = [now]"
| "clock_of (Validate token now) = [now]"
| "clock_of (ListSessions now) = [now]"
| "clock_of (GetSession sessionId) = []"
| "clock_of (Revoke sessionId) = []"
| "clock_of RevokeAll = []"
| "clock_of (SweepCodes now) = [now]"
| "clock_of (SweepSessions now) = [now]"
| "clock_of (SweepRateLimits now) = [now]"

text \<open>
  A monotone clock: starting from the value \<open>t\<close>, no operation of the sequence reads a
  value below the one read before. \<open>clock_after\<close> is the last value read.
\<close>

fun monotone_clock :: "int \<Rightarrow> op list \<Rightarrow> bool" where
  "monotone_clock t [] \<longleftrightarrow> True"
| "monotone_clock t (x # xs) \<longleftrightarrow>
     sorted (t # clock_of x) \<and> monotone_clock (last (t # clock_of x)) xs"

fun clock_after :: "int \<Rightarrow> op list \<Rightarrow> int" where
  "clock_after t [] = t"
| "clock_after t (x # xs) = clock_after (last (t # clock_of x)) xs"

section \<open>Properties of a state\<close>


text \<open>
  Every session is stored under its own \<open>id\<close>: \<open>completePairing\<close> and the loading of
  the sessions file both call \<open>sessions.set(session.id, session)\<close>.
\<close>

definition ids_ok :: "state \<Rightarrow> bool" where
  "ids_ok st \<longleftrightarrow> list_all (\<lambda>p. s_id (snd p) = fst p) (sessions st)"


text \<open>No stored session has a \<open>lastUsedAt\<close> later than \<open>t\<close>.\<close>

definition last_used_by :: "int \<Rightarrow> state \<Rightarrow> bool" where
  "last_used_by t st \<longleftrightarrow> list_all (\<lambda>p. s_lastUsedAt (snd p) \<le> t) (sessions st)"

text \<open>
  The operations other than \<open>completePairing\<close> and a \<open>validateSession\<close> that returns
  a session: \<open>initiatePairing\<close>, a \<open>validateSession\<close> that returns \<open>null\<close>,
  \<open>getSessions\<close>, \<open>getSession\<close>, the revocations and the sweeps.
\<close>

fun quiet :: "config \<Rightarrow> op \<Rightarrow> state \<Rightarrow> bool" where
  "quiet cfg (Complete token now code sessionId ipAddress) st \<longleftrightarrow> False"
| "quiet cfg (Validate token now) st \<longleftrightarrow> fst (validateSession cfg token now st) = None"
| "quiet cfg x st \<longleftrightarrow> True"

section \<open>Scenarios\<close>

text \<open>
  The states the concrete runs below start from, each reached from the empty service
  by its own operations. \<open>draws_of ds\<close> draws the indices listed in \<open>ds\<close>, in
  order; \<open>draws_A7K9M2\<close> draws those of \<open>A7K9M2\<close> in \<open>chars\<close>.
\<close>

definition draws_of :: "nat list \<Rightarrow> nat \<Rightarrow> nat" where
  "draws_of ds i = (if i < length ds then ds ! i else 0)"

definition draws_A7K9M2 :: "nat \<Rightarrow> nat" where
  "draws_A7K9M2 = draws_of [0, 29, 9, 31, 11, 24]"

definition initiated :: state where
  "initiated =
     snd (initiatePairing default_config draws_A7K9M2 ''s1'' 0 0 (Some ''phone'') None
            empty_state)"

definition completed_lower :: state where
  "completed_lower =
     snd (completePairing default_config ''t1'' 1000 ''a7k9m2'' ''s1'' None initiated)"



text \<open>
  A service limited to one session that lives one second: the session paired at 1000
  expires at 2000; a second code (\<open>ABCDEF\<close>, correlation id \<open>s2\<close>) is issued at 5000.
\<close>

definition config_short :: config where
  "config_short = default_config\<lparr>SESSION_TOKEN_EXPIRY := 1, SESSION_MAX_PER_USER := 1\<rparr>"

definition expired_unswept :: state where
  "expired_unswept =
     run config_short
       [Initiate draws_A7K9M2 ''s1'' 0 0 (Some ''phone'') None,
        Complete ''t1'' 1000 ''A7K9M2'' ''s1'' None,
        Initiate (draws_of [0, 1, 2, 3, 4, 5]) ''s2'' 5000 5000 (Some ''tablet'') None]
       empty_state"

text \<open>
  The service limited to one short-lived session, at the moment the first pairing is
  completed (the session \<open>s1\<close> with token \<open>t1\<close> expires at 2000).
\<close>

definition one_session :: state where
  "one_session =
     run config_short
       [Initiate draws_A7K9M2 ''s1'' 0 0 (Some ''phone'') None,
        Complete ''t1'' 1000 ''A7K9M2'' ''s1'' None]
       empty_state"

text \<open>The same service with sliding expiry.\<close>

definition config_sliding :: config where
  "config_sliding = config_short\<lparr>SESSION_SLIDING_EXPIRY := True\<rparr>"

section \<open>Facts about the map operations\<close>

lemma map_get_map_set:
  "map_get k' (map_set k v ps) = (if k' = k then Some v else map_get k' ps)"
  by (induction ps) auto

lemma map_get_map_delete:
  "map_get k' (map_delete k ps) = (if k' = k then None else map_get k' ps)"
  by (induction ps) (auto simp: map_delete_def)


lemma map_get_Some_mem: "map_get k ps = Some v \<Longrightarrow> (k, v) \<in> set ps"
  by (induction ps) (auto split: if_splits)

lemma map_delete_absent: "map_get k ps = None \<Longrightarrow> map_delete k ps = ps"
  by (induction ps) (auto simp: map_delete_def split: if_splits)



lemma set_map_set: "set (map_set k v ps) \<subseteq> insert (k, v) (set ps)"
  by (induction ps) auto

lemma set_map_delete: "set (map_delete k ps) = {p \<in> set ps. fst p \<noteq> k}"
  by (auto simp: map_delete_def)

lemma fst_set_map_set: "fst ` set (map_set k v ps) = insert k (fst ` set ps)"
  by (induction ps) auto

lemma wf_map_set: "wf_map ps \<Longrightarrow> wf_map (map_set k v ps)"
proof (induction ps)
  case Nil
  then show ?case by (simp add: wf_map_def)
next
  case (Cons p ps)
  have keys: "fst ` set (map_set k v ps) = insert k (fst ` set ps)"
    by (rule fst_set_map_set)
  from Cons show ?case
    by (auto simp: wf_map_def keys)
qed

lemma wf_map_filter: "wf_map ps \<Longrightarrow> wf_map (filter P ps)"
  by (simp add: wf_map_def distinct_map_filter)

lemma wf_map_delete: "wf_map ps \<Longrightarrow> wf_map (map_delete k ps)"
  by (simp add: map_delete_def wf_map_filter)

lemma map_get_filter_wf:
  "wf_map ps \<Longrightarrow> map_get k (filter P ps) = Some v \<Longrightarrow> map_get k ps = Some v"
proof (induction ps)
  case Nil
  then show ?case by simp
next
  case (Cons p ps)
  have wf: "wf_map ps" and fresh: "fst p \<notin> fst ` set ps"
    using Cons.prems(1) by (auto simp: wf_map_def)
  show ?case
  proof (cases "fst p = k")
    case True
    show ?thesis
    proof (cases "P p")
      case True
      with \<open>fst p = k\<close> Cons.prems(2) show ?thesis by simp
    next
      case False
      with Cons.prems(2) have "map_get k (filter P ps) = Some v" by simp
      then have "(k, v) \<in> set (filter P ps)" by (rule map_get_Some_mem)
      then have "k \<in> fst ` set ps" by force
      with fresh \<open>fst p = k\<close> show ?thesis by simp
    qed
  next
    case False
    with Cons.prems(2) have "map_get k (filter P ps) = Some v"
      by (simp split: if_splits)
    with Cons.IH wf False show ?thesis by simp
  qed
qed

section \<open>Facts about the strings\<close>

lemma upper_char_chars: "c \<in> set chars \<Longrightarrow> upper_char c = c"
  by (auto simp: chars_def upper_char_def)

lemma length_chars: "length chars = 32"
  by (simp add: chars_def)

lemma generatePairingCode_in_chars: "set (generatePairingCode cfg draws) \<subseteq> set chars"
proof
  fix c
  assume "c \<in> set (generatePairingCode cfg draws)"
  then obtain r :: nat where "c = chars ! (r mod length chars)"
    by (auto simp: generatePairingCode_def)
  moreover have "r mod length chars < length chars"
    by (simp add: length_chars)
  ultimately show "c \<in> set chars"
    by (simp only: nth_mem)
qed

lemma length_generatePairingCode:
  "length (generatePairingCode cfg draws) = PAIRING_CODE_LENGTH cfg"
  by (simp add: generatePairingCode_def)

text \<open>A generated code is its own upper-case form: the keys of \<open>pairingCodes\<close> are.\<close>

lemma toUpperCase_generatePairingCode:
  "toUpperCase (generatePairingCode cfg draws) = generatePairingCode cfg draws"
proof -
  have "\<forall>c \<in> set (generatePairingCode cfg draws). upper_char c = c"
    using generatePairingCode_in_chars upper_char_chars by blast
  then show ?thesis
    unfolding toUpperCase_def by (simp add: map_idI)
qed

section \<open>The branches of \<open>completePairing\<close>\<close>

lemma completePairing_absent:
  "map_get (toUpperCase code) (pairingCodes st) = None \<Longrightarrow>
   completePairing cfg token now code sessionId ipAddress st = (Inl PAIRING_CODE_INVALID, st)"
  by (simp add: completePairing_def)

lemma completePairing_mismatch:
  "map_get (toUpperCase code) (pairingCodes st) = Some pc \<Longrightarrow>
   pc_sessionId pc \<noteq> sessionId \<Longrightarrow>
   completePairing cfg token now code sessionId ipAddress st = (Inl PAIRING_CODE_INVALID, st)"
  by (simp add: completePairing_def)

lemma completePairing_expired:
  "map_get (toUpperCase code) (pairingCodes st) = Some pc \<Longrightarrow>
   pc_sessionId pc = sessionId \<Longrightarrow> pc_expiresAt pc < now \<Longrightarrow>
   completePairing cfg token now code sessionId ipAddress st =
     (Inl PAIRING_CODE_EXPIRED, st\<lparr>pairingCodes := map_delete code (pairingCodes st)\<rparr>)"
  by (simp add: completePairing_def)

lemma completePairing_full:
  "map_get (toUpperCase code) (pairingCodes st) = Some pc \<Longrightarrow>
   pc_sessionId pc = sessionId \<Longrightarrow> \<not> pc_expiresAt pc < now \<Longrightarrow>
   SESSION_MAX_PER_USER cfg \<le> int (length (sessions st)) \<Longrightarrow>
   completePairing cfg token now code sessionId ipAddress st = (Inl SESSION_LIMIT_REACHED, st)"
  by (simp add: completePairing_def)

lemma completePairing_ok:
  "map_get (toUpperCase code) (pairingCodes st) = Some pc \<Longrightarrow>
   pc_sessionId pc = sessionId \<Longrightarrow> \<not> pc_expiresAt pc < now \<Longrightarrow>
   \<not> SESSION_MAX_PER_USER cfg \<le> int (length (sessions st)) \<Longrightarrow>
   completePairing cfg token now code sessionId ipAddress st =
     (Inr (new_session cfg token now sessionId ipAddress pc),
      saveSessions
        (st\<lparr>sessions :=
              map_set sessionId (new_session cfg token now sessionId ipAddress pc) (sessions st),
            pairingCodes := map_delete code (pairingCodes st)\<rparr>))"
  by (simp add: completePairing_def new_session_def Let_def)

lemma completePairing_cases:
  obtains
    (absent) "map_get (toUpperCase code) (pairingCodes st) = None"
  | (mismatch) pc where
      "map_get (toUpperCase code) (pairingCodes st) = Some pc" "pc_sessionId pc \<noteq> sessionId"
  | (expired) pc where
      "map_get (toUpperCase code) (pairingCodes st) = Some pc" "pc_sessionId pc = sessionId"
      "pc_expiresAt pc < now"
  | (full) pc where
      "map_get (toUpperCase code) (pairingCodes st) = Some pc" "pc_sessionId pc = sessionId"
      "\<not> pc_expiresAt pc < now" "SESSION_MAX_PER_USER cfg \<le> int (length (sessions st))"
  | (ok) pc where
      "map_get (toUpperCase code) (pairingCodes st) = Some pc" "pc_sessionId pc = sessionId"
      "\<not> pc_expiresAt pc < now" "\<not> SESSION_MAX_PER_USER cfg \<le> int (length (sessions st))"
  by (cases "map_get (toUpperCase code) (pairingCodes st)") blast+

section \<open>Single use of a pairing code\<close>

text \<open>
  What \<open>completePairing\<close> does when the code is passed in upper case: the entry is
  deleted on success, and every later call with that code, in any letter case, is
  refused.
\<close>

lemma completePairing_consumes_upper:
  assumes up: "toUpperCase code = code"
    and first: "completePairing cfg token now code sessionId ipAddress st = (Inr s, st')"
    and same: "toUpperCase code' = code"
  shows "completePairing cfg token' now' code' sessionId' ipAddress' st' =
           (Inl PAIRING_CODE_INVALID, st')"
proof -
  have "pairingCodes st' = map_delete code (pairingCodes st)"
    using first
    by (cases rule: completePairing_cases
          [where code = code and st = st and sessionId = sessionId and now = now and cfg = cfg])
       (auto simp: completePairing_absent completePairing_mismatch completePairing_expired
          completePairing_full completePairing_ok saveSessions_def)
  then have "map_get (toUpperCase code') (pairingCodes st') = None"
    using same by (simp add: map_get_map_delete)
  then show ?thesis by (rule completePairing_absent)
qed

text \<open>
  C1. A pairing code is to be single-use: after one successful \<open>completePairing\<close>, a
  second call with the same code fails with \<open>PAIRING_CODE_INVALID\<close>. The run below is
  what the service does when the code is passed in lower case: \<open>initiatePairing\<close>
  stores \<open>A7K9M2\<close> with correlation id \<open>s1\<close>; \<open>completePairing\<close> with \<open>a7k9m2\<close>
  returns a session and leaves the stored code where it was
  (\<open>delete(code)\<close> looks for the key \<open>a7k9m2\<close>); a second call, with \<open>a7k9m2\<close> or
  with \<open>A7K9M2\<close>, returns a session again.
\<close>

theorem completePairing_lower_case_reuse:
  "fst (initiatePairing default_config draws_A7K9M2 ''s1'' 0 0 (Some ''phone'') None
          empty_state)
     = Inr (''A7K9M2'', ''s1'', 300)
   \<and> fst (completePairing default_config ''t1'' 1000 ''a7k9m2'' ''s1'' None initiated)
     = Inr \<lparr>s_id = ''s1'', s_token = ''t1'', s_deviceName = ''phone'', s_createdAt = 1000,
            s_lastUsedAt = 1000, s_expiresAt = 2592001000, s_ipAddress = None,
            s_userAgent = None\<rparr>
   \<and> pairingCodes completed_lower = pairingCodes initiated
   \<and> fst (completePairing default_config ''t2'' 2000 ''a7k9m2'' ''s1'' None completed_lower)
     = Inr \<lparr>s_id = ''s1'', s_token = ''t2'', s_deviceName = ''phone'', s_createdAt = 2000,
            s_lastUsedAt = 2000, s_expiresAt = 2592002000, s_ipAddress = None,
            s_userAgent = None\<rparr>
   \<and> fst (completePairing default_config ''t2'' 2000 ''A7K9M2'' ''s1'' None completed_lower)
     = Inr \<lparr>s_id = ''s1'', s_token = ''t2'', s_deviceName = ''phone'', s_createdAt = 2000,
            s_lastUsedAt = 2000, s_expiresAt = 2592002000, s_ipAddress = None,
            s_userAgent = None\<rparr>"
  by code_simp

section \<open>Expiry of a pairing code\<close>

text \<open>
  The expiry test is \<open>expiresAt < now\<close>: a call at a time up to and including
  \<open>expiresAt\<close> is not refused as expired, a call strictly later is, when the code is
  stored under the normalised key with the correlation id given.
\<close>

lemma completePairing_expired_iff:
  assumes "map_get (toUpperCase code) (pairingCodes st) = Some pc"
    and "pc_sessionId pc = sessionId"
  shows "fst (completePairing cfg token now code sessionId ipAddress st) = Inl PAIRING_CODE_EXPIRED
         \<longleftrightarrow> pc_expiresAt pc < now"
  using assms by (simp add: completePairing_def Let_def)

text \<open>Passed in upper case, the expired code is deleted.\<close>

lemma completePairing_expired_deletes_upper:
  assumes "map_get (toUpperCase code) (pairingCodes st) = Some pc"
    and "pc_sessionId pc = sessionId" and "pc_expiresAt pc < now"
    and "toUpperCase code = code"
  shows "map_get code
           (pairingCodes (snd (completePairing cfg token now code sessionId ipAddress st)))
         = None"
  using assms by (simp add: completePairing_expired map_get_map_delete)

text \<open>
  C2. A call with the right correlation id at a time after the code's \<open>expiresAt\<close>
  is to fail with \<open>PAIRING_CODE_EXPIRED\<close> and delete the entry, whatever the letter case
  of the code passed. The run below is the service on the code \<open>A7K9M2\<close>, which expires
  at 300000, completed with \<open>a7k9m2\<close> at 300001: the call fails as expired and the
  state, the stored code included, is what it was.
\<close>

theorem completePairing_lower_case_expired_kept:
  "completePairing default_config ''t1'' 300001 ''a7k9m2'' ''s1'' None initiated
     = (Inl PAIRING_CODE_EXPIRED, initiated)
   \<and> map_get ''A7K9M2'' (pairingCodes initiated)
     = Some \<lparr>pc_code = ''A7K9M2'', pc_sessionId = ''s1'', pc_createdAt = 0,
             pc_expiresAt = 300000, pc_deviceName = Some ''phone'', pc_ipAddress = None\<rparr>"
  by code_simp

section \<open>Refusal of an unknown code or a wrong correlation id\<close>



section \<open>Rate limiting\<close>

lemma checkRateLimit_fresh:
  "(case map_get ip (rateLimitMap st) of None \<Rightarrow> True | Some limit \<Rightarrow> resetAt limit < now) \<Longrightarrow>
   checkRateLimit cfg ip now st =
     (True, st\<lparr>rateLimitMap :=
        map_set ip \<lparr>attempts = 1, resetAt = now + 60000\<rparr> (rateLimitMap st)\<rparr>)"
  by (cases "map_get ip (rateLimitMap st)") (simp_all add: checkRateLimit_def)

lemma checkRateLimit_counted:
  "map_get ip (rateLimitMap st) = Some limit \<Longrightarrow> \<not> resetAt limit < now \<Longrightarrow>
   attempts limit < PAIRING_MAX_ATTEMPTS cfg \<Longrightarrow>
   checkRateLimit cfg ip now st =
     (True, st\<lparr>rateLimitMap :=
        map_set ip (limit\<lparr>attempts := attempts limit + 1\<rparr>) (rateLimitMap st)\<rparr>)"
  by (simp add: checkRateLimit_def)

lemma checkRateLimit_denied:
  "map_get ip (rateLimitMap st) = Some limit \<Longrightarrow> \<not> resetAt limit < now \<Longrightarrow>
   PAIRING_MAX_ATTEMPTS cfg \<le> attempts limit \<Longrightarrow>
   checkRateLimit cfg ip now st = (False, st)"
  by (simp add: checkRateLimit_def)

text \<open>
  Within an open window the check is allowed exactly while fewer than
  \<open>PAIRING_MAX_ATTEMPTS\<close> attempts are counted; the first attempt of a window counts
  as one, so the attempt that brings the count to the maximum is the last one allowed.
\<close>

lemma checkRateLimit_open_window:
  assumes "map_get ip (rateLimitMap st) = Some limit" and "\<not> resetAt limit < now"
  shows "fst (checkRateLimit cfg ip now st) \<longleftrightarrow> attempts limit < PAIRING_MAX_ATTEMPTS cfg"
  using assms by (simp add: checkRateLimit_def)

lemma initiatePairing_checked:
  "ip \<noteq> [] \<Longrightarrow>
   initiatePairing cfg draws sid tcheck now deviceName (Some ip) st =
     (if fst (checkRateLimit cfg ip tcheck st) then
        (Inr (generatePairingCode cfg draws, sid, PAIRING_CODE_EXPIRY cfg),
         (snd (checkRateLimit cfg ip tcheck st))
           \<lparr>pairingCodes :=
              map_set (generatePairingCode cfg draws)
                \<lparr>pc_code = generatePairingCode cfg draws, pc_sessionId = sid,
                 pc_createdAt = now, pc_expiresAt = now + PAIRING_CODE_EXPIRY cfg * 1000,
                 pc_deviceName = deviceName, pc_ipAddress = Some ip\<rparr>
                (pairingCodes (snd (checkRateLimit cfg ip tcheck st)))\<rparr>)
      else (Inl PAIRING_RATE_LIMITED, snd (checkRateLimit cfg ip tcheck st)))"
  by (simp add: initiatePairing_def truthy_def Let_def split_beta)

lemma initiatePairing_fresh:
  assumes "ip \<noteq> []"
    and "case map_get ip (rateLimitMap st) of None \<Rightarrow> True | Some limit \<Rightarrow> resetAt limit < tcheck"
  shows "fst (initiatePairing cfg draws sid tcheck now deviceName (Some ip) st) =
           Inr (generatePairingCode cfg draws, sid, PAIRING_CODE_EXPIRY cfg)"
    and "map_get ip (rateLimitMap (snd (initiatePairing cfg draws sid tcheck now deviceName (Some ip) st))) =
           Some \<lparr>attempts = 1, resetAt = tcheck + 60000\<rparr>"
  using assms by (simp_all add: initiatePairing_checked checkRateLimit_fresh map_get_map_set)

lemma initiatePairing_counted:
  assumes "ip \<noteq> []"
    and "map_get ip (rateLimitMap st) = Some limit" and "\<not> resetAt limit < tcheck"
    and "attempts limit < PAIRING_MAX_ATTEMPTS cfg"
  shows "fst (initiatePairing cfg draws sid tcheck now deviceName (Some ip) st) =
           Inr (generatePairingCode cfg draws, sid, PAIRING_CODE_EXPIRY cfg)"
    and "map_get ip (rateLimitMap (snd (initiatePairing cfg draws sid tcheck now deviceName (Some ip) st))) =
           Some (limit\<lparr>attempts := attempts limit + 1\<rparr>)"
  using assms by (simp_all add: initiatePairing_checked checkRateLimit_counted map_get_map_set)

lemma initiatePairing_denied:
  assumes "ip \<noteq> []"
    and "map_get ip (rateLimitMap st) = Some limit" and "\<not> resetAt limit < tcheck"
    and "PAIRING_MAX_ATTEMPTS cfg \<le> attempts limit"
  shows "initiatePairing cfg draws sid tcheck now deviceName (Some ip) st =
           (Inl PAIRING_RATE_LIMITED, st)"
  using assms by (simp add: initiatePairing_checked checkRateLimit_denied)

lemma checkRateLimit_window:
  assumes max: "PAIRING_MAX_ATTEMPTS cfg = 3"
    and fresh: "case map_get ip (rateLimitMap st0) of
                  None \<Rightarrow> True | Some limit \<Rightarrow> resetAt limit < t1"
    and t2: "t2 \<le> t1 + 60000" and t3: "t3 \<le> t1 + 60000" and t4: "t4 \<le> t1 + 60000"
    and t5: "t1 + 60000 < t5"
  shows "(let (a1, st1) = checkRateLimit cfg ip t1 st0;
              (a2, st2) = checkRateLimit cfg ip t2 st1;
              (a3, st3) = checkRateLimit cfg ip t3 st2;
              (a4, st4) = checkRateLimit cfg ip t4 st3;
              (a5, st5) = checkRateLimit cfg ip t5 st4
          in [a1, a2, a3, a4, a5] = [True, True, True, False, True]
             \<and> map_get ip (rateLimitMap st4) = Some \<lparr>attempts = 3, resetAt = t1 + 60000\<rparr>
             \<and> map_get ip (rateLimitMap st5) = Some \<lparr>attempts = 1, resetAt = t5 + 60000\<rparr>)"
proof -
  define st1 where "st1 = snd (checkRateLimit cfg ip t1 st0)"
  define st2 where "st2 = snd (checkRateLimit cfg ip t2 st1)"
  define st3 where "st3 = snd (checkRateLimit cfg ip t3 st2)"
  define st4 where "st4 = snd (checkRateLimit cfg ip t4 st3)"
  define st5 where "st5 = snd (checkRateLimit cfg ip t5 st4)"
  have a1: "fst (checkRateLimit cfg ip t1 st0)"
    and w1: "map_get ip (rateLimitMap st1) = Some \<lparr>attempts = 1, resetAt = t1 + 60000\<rparr>"
    using fresh by (simp_all add: st1_def checkRateLimit_fresh map_get_map_set)
  have a2: "fst (checkRateLimit cfg ip t2 st1)"
    and w2: "map_get ip (rateLimitMap st2) = Some \<lparr>attempts = 2, resetAt = t1 + 60000\<rparr>"
    using t2 max by (simp_all add: st2_def checkRateLimit_counted [OF w1] map_get_map_set)
  have a3: "fst (checkRateLimit cfg ip t3 st2)"
    and w3: "map_get ip (rateLimitMap st3) = Some \<lparr>attempts = 3, resetAt = t1 + 60000\<rparr>"
    using t3 max by (simp_all add: st3_def checkRateLimit_counted [OF w2] map_get_map_set)
  have c4: "checkRateLimit cfg ip t4 st3 = (False, st3)"
    using t4 max by (simp add: checkRateLimit_denied [OF w3])
  then have a4: "\<not> fst (checkRateLimit cfg ip t4 st3)"
    and w4: "map_get ip (rateLimitMap st4) = Some \<lparr>attempts = 3, resetAt = t1 + 60000\<rparr>"
    using w3 by (simp_all add: st4_def)
  have a5: "fst (checkRateLimit cfg ip t5 st4)"
    and w5: "map_get ip (rateLimitMap st5) = Some \<lparr>attempts = 1, resetAt = t5 + 60000\<rparr>"
    using t5 w4 by (simp_all add: st5_def checkRateLimit_fresh map_get_map_set)
  show ?thesis
    using a1 a2 a3 a4 a5 w4 w5
    unfolding st5_def st4_def st3_def st2_def st1_def
    by (simp add: split_beta Let_def)
qed


lemma initiatePairing_window:
  assumes max: "PAIRING_MAX_ATTEMPTS cfg = 3"
    and ip: "ip \<noteq> []"
    and fresh: "case map_get ip (rateLimitMap st0) of
                  None \<Rightarrow> True | Some limit \<Rightarrow> resetAt limit < t1"
    and t2: "t2 \<le> t1 + 60000" and t3: "t3 \<le> t1 + 60000" and t4: "t4 \<le> t1 + 60000"
    and t5: "t1 + 60000 < t5"
  shows "(let (r1, st1) = initiatePairing cfg d1 i1 t1 n1 dn1 (Some ip) st0;
              (r2, st2) = initiatePairing cfg d2 i2 t2 n2 dn2 (Some ip) st1;
              (r3, st3) = initiatePairing cfg d3 i3 t3 n3 dn3 (Some ip) st2;
              (r4, st4) = initiatePairing cfg d4 i4 t4 n4 dn4 (Some ip) st3;
              (r5, st5) = initiatePairing cfg d5 i5 t5 n5 dn5 (Some ip) st4
          in r1 = Inr (generatePairingCode cfg d1, i1, PAIRING_CODE_EXPIRY cfg)
             \<and> r2 = Inr (generatePairingCode cfg d2, i2, PAIRING_CODE_EXPIRY cfg)
             \<and> r3 = Inr (generatePairingCode cfg d3, i3, PAIRING_CODE_EXPIRY cfg)
             \<and> r4 = Inl PAIRING_RATE_LIMITED \<and> st4 = st3
             \<and> r5 = Inr (generatePairingCode cfg d5, i5, PAIRING_CODE_EXPIRY cfg)
             \<and> map_get ip (rateLimitMap st5) = Some \<lparr>attempts = 1, resetAt = t5 + 60000\<rparr>)"
proof -
  define st1 where "st1 = snd (initiatePairing cfg d1 i1 t1 n1 dn1 (Some ip) st0)"
  define st2 where "st2 = snd (initiatePairing cfg d2 i2 t2 n2 dn2 (Some ip) st1)"
  define st3 where "st3 = snd (initiatePairing cfg d3 i3 t3 n3 dn3 (Some ip) st2)"
  define st4 where "st4 = snd (initiatePairing cfg d4 i4 t4 n4 dn4 (Some ip) st3)"
  define st5 where "st5 = snd (initiatePairing cfg d5 i5 t5 n5 dn5 (Some ip) st4)"
  have r1: "fst (initiatePairing cfg d1 i1 t1 n1 dn1 (Some ip) st0) =
              Inr (generatePairingCode cfg d1, i1, PAIRING_CODE_EXPIRY cfg)"
    and w1: "map_get ip (rateLimitMap st1) = Some \<lparr>attempts = 1, resetAt = t1 + 60000\<rparr>"
    unfolding st1_def using ip fresh by (rule initiatePairing_fresh)+
  have r2: "fst (initiatePairing cfg d2 i2 t2 n2 dn2 (Some ip) st1) =
              Inr (generatePairingCode cfg d2, i2, PAIRING_CODE_EXPIRY cfg)"
    and w2: "map_get ip (rateLimitMap st2) = Some \<lparr>attempts = 2, resetAt = t1 + 60000\<rparr>"
    using t2 max initiatePairing_counted [OF ip w1, of t2 cfg d2 i2 n2 dn2]
    by (simp_all add: st2_def)
  have r3: "fst (initiatePairing cfg d3 i3 t3 n3 dn3 (Some ip) st2) =
              Inr (generatePairingCode cfg d3, i3, PAIRING_CODE_EXPIRY cfg)"
    and w3: "map_get ip (rateLimitMap st3) = Some \<lparr>attempts = 3, resetAt = t1 + 60000\<rparr>"
    using t3 max initiatePairing_counted [OF ip w2, of t3 cfg d3 i3 n3 dn3]
    by (simp_all add: st3_def)
  have c4: "initiatePairing cfg d4 i4 t4 n4 dn4 (Some ip) st3 = (Inl PAIRING_RATE_LIMITED, st3)"
    using t4 max by (simp add: initiatePairing_denied [OF ip w3])
  then have r4: "fst (initiatePairing cfg d4 i4 t4 n4 dn4 (Some ip) st3) = Inl PAIRING_RATE_LIMITED"
    and s4: "st4 = st3"
    by (simp_all add: st4_def)
  have w4: "map_get ip (rateLimitMap st4) = Some \<lparr>attempts = 3, resetAt = t1 + 60000\<rparr>"
    using w3 s4 by simp
  have f5: "case map_get ip (rateLimitMap st4) of
              None \<Rightarrow> True | Some limit \<Rightarrow> resetAt limit < t5"
    using w4 t5 by simp
  have r5: "fst (initiatePairing cfg d5 i5 t5 n5 dn5 (Some ip) st4) =
              Inr (generatePairingCode cfg d5, i5, PAIRING_CODE_EXPIRY cfg)"
    and w5: "map_get ip (rateLimitMap st5) = Some \<lparr>attempts = 1, resetAt = t5 + 60000\<rparr>"
    unfolding st5_def using ip f5 by (rule initiatePairing_fresh)+
  show ?thesis
    using r1 r2 r3 r4 s4 r5 w5
    unfolding st5_def st4_def st3_def st2_def st1_def
    by (simp add: split_beta Let_def)
qed

text \<open>
  C3. With \<open>PAIRING_MAX_ATTEMPTS = 3\<close>, and an origin address that has no window or
  one whose \<open>resetAt\<close> has passed: four consecutive checks, the last three at times
  within the window the first one opens, return allowed, allowed, allowed, denied (the
  third attempt is the last one allowed, and \<open>attempts\<close> stays at 3); a check after
  the window's \<open>resetAt\<close> is allowed again and sets \<open>attempts\<close> to 1. The second
  half states the same of five \<open>initiatePairing\<close> calls from that address, whatever
  they draw: three return a code, the fourth fails with \<open>PAIRING_RATE_LIMITED\<close>
  and changes nothing, the fifth returns a code.
\<close>

theorem rate_limit_window:
  assumes max: "PAIRING_MAX_ATTEMPTS cfg = 3"
    and ip: "ip \<noteq> []"
    and fresh: "case map_get ip (rateLimitMap st0) of
                  None \<Rightarrow> True | Some limit \<Rightarrow> resetAt limit < t1"
    and t2: "t2 \<le> t1 + 60000" and t3: "t3 \<le> t1 + 60000" and t4: "t4 \<le> t1 + 60000"
    and t5: "t1 + 60000 < t5"
  shows "(let (a1, st1) = checkRateLimit cfg ip t1 st0;
              (a2, st2) = checkRateLimit cfg ip t2 st1;
              (a3, st3) = checkRateLimit cfg ip t3 st2;
              (a4, st4) = checkRateLimit cfg ip t4 st3;
              (a5, st5) = checkRateLimit cfg ip t5 st4
          in [a1, a2, a3, a4, a5] = [True, True, True, False, True]
             \<and> map_get ip (rateLimitMap st4) = Some \<lparr>attempts = 3, resetAt = t1 + 60000\<rparr>
             \<and> map_get ip (rateLimitMap st5) = Some \<lparr>attempts = 1, resetAt = t5 + 60000\<rparr>)
         \<and>
         (let (r1, st1) = initiatePairing cfg d1 i1 t1 n1 dn1 (Some ip) st0;
              (r2, st2) = initiatePairing cfg d2 i2 t2 n2 dn2 (Some ip) st1;
              (r3, st3) = initiatePairing cfg d3 i3 t3 n3 dn3 (Some ip) st2;
              (r4, st4) = initiatePairing cfg d4 i4 t4 n4 dn4 (Some ip) st3;
              (r5, st5) = initiatePairing cfg d5 i5 t5 n5 dn5 (Some ip) st4
          in r1 = Inr (generatePairingCode cfg d1, i1, PAIRING_CODE_EXPIRY cfg)
             \<and> r2 = Inr (generatePairingCode cfg d2, i2, PAIRING_CODE_EXPIRY cfg)
             \<and> r3 = Inr (generatePairingCode cfg d3, i3, PAIRING_CODE_EXPIRY cfg)
             \<and> r4 = Inl PAIRING_RATE_LIMITED \<and> st4 = st3
             \<and> r5 = Inr (generatePairingCode cfg d5, i5, PAIRING_CODE_EXPIRY cfg)
             \<and> map_get ip (rateLimitMap st5) = Some \<lparr>attempts = 1, resetAt = t5 + 60000\<rparr>)"
  using checkRateLimit_window [OF max fresh t2 t3 t4 t5]
    initiatePairing_window [OF max ip fresh t2 t3 t4 t5]
  by (rule conjI)

theorem rate_limit_window_witness:
  "(let (a1, st1) = checkRateLimit default_config ''10.0.0.7'' 0 empty_state;
        (a2, st2) = checkRateLimit default_config ''10.0.0.7'' 1000 st1;
        (a3, st3) = checkRateLimit default_config ''10.0.0.7'' 2000 st2;
        (a4, st4) = checkRateLimit default_config ''10.0.0.7'' 60000 st3;
        (a5, st5) = checkRateLimit default_config ''10.0.0.7'' 60001 st4
    in [a1, a2, a3, a4, a5] = [True, True, True, False, True]
       \<and> map_get ''10.0.0.7'' (rateLimitMap st4) = Some \<lparr>attempts = 3, resetAt = 0 + 60000\<rparr>
       \<and> map_get ''10.0.0.7'' (rateLimitMap st5) = Some \<lparr>attempts = 1, resetAt = 60001 + 60000\<rparr>)
   \<and>
   (let (r1, st1) =
          initiatePairing default_config draws_A7K9M2 ''s1'' 0 0 None (Some ''10.0.0.7'')
            empty_state;
        (r2, st2) =
          initiatePairing default_config (draws_of [1, 2, 3, 4, 5, 6]) ''s2'' 1000 1000 None
            (Some ''10.0.0.7'') st1;
        (r3, st3) =
          initiatePairing default_config (draws_of [7, 8, 9, 10, 11, 12]) ''s3'' 2000 2000 None
            (Some ''10.0.0.7'') st2;
        (r4, st4) =
          initiatePairing default_config (draws_of [13, 14, 15, 16, 17, 18]) ''s4'' 60000 60000 None
            (Some ''10.0.0.7'') st3;
        (r5, st5) =
          initiatePairing default_config (draws_of [19, 20, 21, 22, 23, 24]) ''s5'' 60001 60001 None
            (Some ''10.0.0.7'') st4
    in r1 = Inr (generatePairingCode default_config draws_A7K9M2, ''s1'',
                 PAIRING_CODE_EXPIRY default_config)
       \<and> r2 = Inr (generatePairingCode default_config (draws_of [1, 2, 3, 4, 5, 6]), ''s2'',
                   PAIRING_CODE_EXPIRY default_config)
       \<and> r3 = Inr (generatePairingCode default_config (draws_of [7, 8, 9, 10, 11, 12]), ''s3'',
                   PAIRING_CODE_EXPIRY default_config)
       \<and> r4 = Inl PAIRING_RATE_LIMITED \<and> st4 = st3
       \<and> r5 = Inr (generatePairingCode default_config (draws_of [19, 20, 21, 22, 23, 24]), ''s5'',
                   PAIRING_CODE_EXPIRY default_config)
       \<and> map_get ''10.0.0.7'' (rateLimitMap st5)
           = Some \<lparr>attempts = 1, resetAt = 60001 + 60000\<rparr>)"
  by (rule rate_limit_window) (simp_all add: default_config_def empty_state_def)

section \<open>The branches of \<open>validateSession\<close>\<close>

lemma validateSession_none:
  "find (\<lambda>p. s_token (snd p) = token) (sessions st) = None \<Longrightarrow>
   validateSession cfg token now st = (None, st)"
  by (simp add: validateSession_def)

lemma validateSession_expired:
  "find (\<lambda>p. s_token (snd p) = token) (sessions st) = Some (k, s) \<Longrightarrow>
   s_expiresAt s < now \<Longrightarrow>
   validateSession cfg token now st =
     (None, saveSessions (st\<lparr>sessions := map_delete k (sessions st)\<rparr>))"
  by (simp add: validateSession_def)

lemma validateSession_live:
  "find (\<lambda>p. s_token (snd p) = token) (sessions st) = Some (k, s) \<Longrightarrow>
   \<not> s_expiresAt s < now \<Longrightarrow>
   validateSession cfg token now st =
     (Some (touch cfg now s),
      saveSessions (st\<lparr>sessions := map_set k (touch cfg now s) (sessions st)\<rparr>))"
  by (simp add: validateSession_def touch_def Let_def)

lemma validateSession_cases:
  obtains
    (none) "find (\<lambda>p. s_token (snd p) = token) (sessions st) = None"
  | (expired) k s where
      "find (\<lambda>p. s_token (snd p) = token) (sessions st) = Some (k, s)" "s_expiresAt s < now"
  | (live) k s where
      "find (\<lambda>p. s_token (snd p) = token) (sessions st) = Some (k, s)"
      "\<not> s_expiresAt s < now"
  by (cases "find (\<lambda>p. s_token (snd p) = token) (sessions st)") auto

lemma find_Some_mem: "find P ps = Some p \<Longrightarrow> p \<in> set ps \<and> P p"
  by (induction ps) (auto split: if_splits)


section \<open>What each operation does to the session store\<close>

lemma sessions_saveSessions: "sessions (saveSessions st) = sessions st"
  by (simp add: saveSessions_def)

lemma sessions_checkRateLimit: "sessions (snd (checkRateLimit cfg ip now st)) = sessions st"
  by (simp add: checkRateLimit_def split: option.splits)

lemma sessions_initiatePairing:
  "sessions (snd (initiatePairing cfg draws sid tcheck now deviceName ipAddress st)) =
     sessions st"
  by (simp add: initiatePairing_def Let_def split_beta sessions_checkRateLimit)

lemma sessions_completePairing:
  "sessions (snd (completePairing cfg token now code sessionId ipAddress st)) =
     (case fst (completePairing cfg token now code sessionId ipAddress st) of
        Inl e \<Rightarrow> sessions st
      | Inr s \<Rightarrow> map_set sessionId s (sessions st))"
  by (cases rule: completePairing_cases
        [where code = code and st = st and sessionId = sessionId and now = now and cfg = cfg])
     (simp_all add: completePairing_absent completePairing_mismatch completePairing_expired
        completePairing_full completePairing_ok sessions_saveSessions)

lemma sessions_cleanupExpiredSessions:
  "sessions (cleanupExpiredSessions now st) =
     filter (\<lambda>p. \<not> s_expiresAt (snd p) < now) (sessions st)"
  by (simp add: cleanupExpiredSessions_def Let_def sessions_saveSessions)

lemma sessions_revokeSession:
  "sessions (snd (revokeSession sessionId st)) = map_delete sessionId (sessions st)"
  by (simp add: revokeSession_def Let_def sessions_saveSessions)

lemma sessions_revokeAllSessions: "sessions (snd (revokeAllSessions st)) = []"
  by (simp add: revokeAllSessions_def Let_def sessions_saveSessions)







section \<open>The bound on the number of sessions\<close>



section \<open>Expired sessions count towards the limit\<close>

lemma pairingCodes_cleanupExpiredSessions:
  "pairingCodes (cleanupExpiredSessions now st) = pairingCodes st"
  by (simp add: cleanupExpiredSessions_def Let_def saveSessions_def)

text \<open>
  C10. The capacity test of \<open>completePairing\<close> compares the size of the session map,
  expired entries included: with \<open>SESSION_MAX_PER_USER\<close> sessions stored, all of them
  expired at the time of the call (\<open>getSessions\<close> at that time returns none), a call
  for a stored, matching, unexpired code fails with \<open>SESSION_LIMIT_REACHED\<close> and
  changes nothing. Had the expired sessions been swept first, the same call would have
  returned a session.
\<close>

theorem capacity_counts_expired_sessions:
  assumes stored: "map_get (toUpperCase code) (pairingCodes st) = Some pc"
    and match: "pc_sessionId pc = sessionId"
    and fresh: "\<not> pc_expiresAt pc < now"
    and full: "int (length (sessions st)) = SESSION_MAX_PER_USER cfg"
    and some: "0 < SESSION_MAX_PER_USER cfg"
    and dead: "\<forall>p \<in> set (sessions st). s_expiresAt (snd p) < now"
  shows "completePairing cfg token now code sessionId ipAddress st =
           (Inl SESSION_LIMIT_REACHED, st)
         \<and> fst (getSessions now st) = []
         \<and> fst (completePairing cfg token now code sessionId ipAddress
                  (cleanupExpiredSessions now st)) =
             Inr (new_session cfg token now sessionId ipAddress pc)"
proof (intro conjI)
  show "completePairing cfg token now code sessionId ipAddress st =
          (Inl SESSION_LIMIT_REACHED, st)"
    using stored match fresh full by (simp add: completePairing_full)
  have gone: "sessions (cleanupExpiredSessions now st) = []"
    using dead by (simp add: sessions_cleanupExpiredSessions filter_empty_conv)
  then show "fst (getSessions now st) = []"
    by (simp add: getSessions_def Let_def)
  have "map_get (toUpperCase code) (pairingCodes (cleanupExpiredSessions now st)) = Some pc"
    using stored by (simp add: pairingCodes_cleanupExpiredSessions)
  moreover have
    "\<not> SESSION_MAX_PER_USER cfg \<le> int (length (sessions (cleanupExpiredSessions now st)))"
    using some gone by simp
  ultimately show
    "fst (completePairing cfg token now code sessionId ipAddress
            (cleanupExpiredSessions now st)) =
       Inr (new_session cfg token now sessionId ipAddress pc)"
    using match fresh by (simp add: completePairing_ok)
qed

theorem capacity_counts_expired_sessions_witness:
  "map (\<lambda>p. (fst p, s_expiresAt (snd p))) (sessions expired_unswept) = [(''s1'', 2000)]
   \<and> completePairing config_short ''t2'' 6000 ''ABCDEF'' ''s2'' None expired_unswept =
       (Inl SESSION_LIMIT_REACHED, expired_unswept)
   \<and> fst (getSessions 6000 expired_unswept) = []
   \<and> fst (completePairing config_short ''t2'' 6000 ''ABCDEF'' ''s2'' None
            (cleanupExpiredSessions 6000 expired_unswept)) =
       Inr \<lparr>s_id = ''s2'', s_token = ''t2'', s_deviceName = ''tablet'', s_createdAt = 6000,
            s_lastUsedAt = 6000, s_expiresAt = 7000, s_ipAddress = None,
            s_userAgent = None\<rparr>"
proof -
  have ss: "map (\<lambda>p. (fst p, s_expiresAt (snd p))) (sessions expired_unswept) = [(''s1'', 2000)]"
    by code_simp
  have pc: "map_get (toUpperCase ''ABCDEF'') (pairingCodes expired_unswept) =
              Some \<lparr>pc_code = ''ABCDEF'', pc_sessionId = ''s2'', pc_createdAt = 5000,
                    pc_expiresAt = 305000, pc_deviceName = Some ''tablet'',
                    pc_ipAddress = None\<rparr>"
    by code_simp
  have full: "int (length (sessions expired_unswept)) = SESSION_MAX_PER_USER config_short"
    by code_simp
  have some: "0 < SESSION_MAX_PER_USER config_short"
    by (simp add: config_short_def)
  have dead: "\<forall>p \<in> set (sessions expired_unswept). s_expiresAt (snd p) < 6000"
    by code_simp
  have new: "new_session config_short ''t2'' 6000 ''s2'' None
               \<lparr>pc_code = ''ABCDEF'', pc_sessionId = ''s2'', pc_createdAt = 5000,
                 pc_expiresAt = 305000, pc_deviceName = Some ''tablet'', pc_ipAddress = None\<rparr>
             = \<lparr>s_id = ''s2'', s_token = ''t2'', s_deviceName = ''tablet'', s_createdAt = 6000,
                s_lastUsedAt = 6000, s_expiresAt = 7000, s_ipAddress = None,
                s_userAgent = None\<rparr>"
    by code_simp
  note T =
    capacity_counts_expired_sessions
      [where code = "''ABCDEF''" and st = expired_unswept and sessionId = "''s2''"
         and now = 6000 and cfg = config_short and token = "''t2''" and ipAddress = None,
       OF pc _ _ full some dead]
  from T ss new show ?thesis by simp
qed

section \<open>The session is stored under the correlation id\<close>

lemma initiatePairing_result:
  assumes "fst (initiatePairing cfg draws sid tcheck now deviceName ipAddress st) = Inr (c, i, e)"
  shows "c = generatePairingCode cfg draws" and "i = sid" and "e = PAIRING_CODE_EXPIRY cfg"
    and "map_get c (pairingCodes (snd (initiatePairing cfg draws sid tcheck now deviceName
           ipAddress st))) =
         Some \<lparr>pc_code = c, pc_sessionId = sid, pc_createdAt = now,
               pc_expiresAt = now + PAIRING_CODE_EXPIRY cfg * 1000,
               pc_deviceName = deviceName, pc_ipAddress = ipAddress\<rparr>"
  using assms
  by (auto simp: initiatePairing_def Let_def split_beta map_get_map_set split: if_splits)

lemma completePairing_result:
  assumes "fst (completePairing cfg token now code sessionId ipAddress st) = Inr s"
  obtains pc where "map_get (toUpperCase code) (pairingCodes st) = Some pc"
    and "pc_sessionId pc = sessionId" and "\<not> pc_expiresAt pc < now"
    and "\<not> SESSION_MAX_PER_USER cfg \<le> int (length (sessions st))"
    and "s = new_session cfg token now sessionId ipAddress pc"
    and "snd (completePairing cfg token now code sessionId ipAddress st) =
           saveSessions
             (st\<lparr>sessions := map_set sessionId s (sessions st),
                 pairingCodes := map_delete code (pairingCodes st)\<rparr>)"
  using assms
  by (cases rule: completePairing_cases
        [where code = code and st = st and sessionId = sessionId and now = now and cfg = cfg])
     (auto simp: completePairing_absent completePairing_mismatch completePairing_expired
        completePairing_full completePairing_ok)

text \<open>
  C9. \<open>initiatePairing\<close> returns the \<open>sessionId\<close> it drew and stores it in the
  pairing code. A session returned by \<open>completePairing\<close> has as its \<open>id\<close> the
  \<open>sessionId\<close> of the pairing code consumed (which the caller had to pass); it is
  stored under that id: \<open>getSession\<close> finds it there, \<open>getSessions\<close> lists it while
  it has not expired, and \<open>revokeSession\<close> with that id removes it. Completing right
  after the initiation succeeds only with the correlation id that was returned, and
  that id is the session's.
\<close>

theorem session_id_is_correlation_id:
  "(fst (initiatePairing cfg draws sid tcheck now0 deviceName ip0 st0) = Inr (c, i, e) \<longrightarrow>
      i = sid
      \<and> map_option pc_sessionId
          (map_get c (pairingCodes (snd (initiatePairing cfg draws sid tcheck now0 deviceName
             ip0 st0)))) = Some i)
   \<and> (fst (completePairing cfg token now code sessionId ipAddress st) = Inr s \<longrightarrow>
        map_option pc_sessionId (map_get (toUpperCase code) (pairingCodes st)) = Some (s_id s)
        \<and> s_id s = sessionId
        \<and> getSession (s_id s) (snd (completePairing cfg token now code sessionId ipAddress st))
            = Some s
        \<and> (\<not> s_expiresAt s < t \<longrightarrow>
             s \<in> set (fst (getSessions t
                    (snd (completePairing cfg token now code sessionId ipAddress st)))))
        \<and> fst (revokeSession (s_id s)
                 (snd (completePairing cfg token now code sessionId ipAddress st)))
        \<and> getSession (s_id s)
             (snd (revokeSession (s_id s)
                (snd (completePairing cfg token now code sessionId ipAddress st)))) = None)
   \<and> (fst (initiatePairing cfg draws sid tcheck now0 deviceName ip0 st0) = Inr (c, i, e)
        \<and> toUpperCase code' = c
        \<and> fst (completePairing cfg token now code' i' ipAddress
                 (snd (initiatePairing cfg draws sid tcheck now0 deviceName ip0 st0))) = Inr s'
        \<longrightarrow> i' = i \<and> s_id s' = i)"
proof (intro conjI impI)
  assume a: "fst (initiatePairing cfg draws sid tcheck now0 deviceName ip0 st0) = Inr (c, i, e)"
  from initiatePairing_result(2) [OF a] show "i = sid" .
  from initiatePairing_result(2,4) [OF a]
  show "map_option pc_sessionId
          (map_get c (pairingCodes (snd (initiatePairing cfg draws sid tcheck now0 deviceName
             ip0 st0)))) = Some i"
    by simp
next
  assume a: "fst (completePairing cfg token now code sessionId ipAddress st) = Inr s"
  then obtain pc where pc: "map_get (toUpperCase code) (pairingCodes st) = Some pc"
    "pc_sessionId pc = sessionId" "s = new_session cfg token now sessionId ipAddress pc"
    and st': "snd (completePairing cfg token now code sessionId ipAddress st) =
           saveSessions
             (st\<lparr>sessions := map_set sessionId s (sessions st),
                 pairingCodes := map_delete code (pairingCodes st)\<rparr>)"
    by (rule completePairing_result)
  from pc have id: "s_id s = sessionId"
    by (simp add: new_session_def)
  have stored: "map_get sessionId
                  (sessions (snd (completePairing cfg token now code sessionId ipAddress st)))
                = Some s"
    by (simp add: st' sessions_saveSessions map_get_map_set)
  {
    show "s_id s = sessionId" by (rule id)
    show "map_option pc_sessionId (map_get (toUpperCase code) (pairingCodes st)) = Some (s_id s)"
      using pc id by simp
    show "getSession (s_id s) (snd (completePairing cfg token now code sessionId ipAddress st))
            = Some s"
      using stored id by (simp add: getSession_def)
    show "fst (revokeSession (s_id s)
                 (snd (completePairing cfg token now code sessionId ipAddress st)))"
      using stored id by (simp add: revokeSession_def Let_def)
    show "getSession (s_id s)
             (snd (revokeSession (s_id s)
                (snd (completePairing cfg token now code sessionId ipAddress st)))) = None"
      by (simp add: getSession_def sessions_revokeSession map_get_map_delete)
  }
  assume live: "\<not> s_expiresAt s < t"
  from stored have "(sessionId, s) \<in>
      set (sessions (snd (completePairing cfg token now code sessionId ipAddress st)))"
    by (rule map_get_Some_mem)
  with live have "(sessionId, s) \<in>
      set (sessions (cleanupExpiredSessions t
             (snd (completePairing cfg token now code sessionId ipAddress st))))"
    by (simp add: sessions_cleanupExpiredSessions)
  then show "s \<in> set (fst (getSessions t
                    (snd (completePairing cfg token now code sessionId ipAddress st))))"
    by (force simp: getSessions_def Let_def)
next
  assume a: "fst (initiatePairing cfg draws sid tcheck now0 deviceName ip0 st0) = Inr (c, i, e)
        \<and> toUpperCase code' = c
        \<and> fst (completePairing cfg token now code' i' ipAddress
                 (snd (initiatePairing cfg draws sid tcheck now0 deviceName ip0 st0))) = Inr s'"
  then have init: "fst (initiatePairing cfg draws sid tcheck now0 deviceName ip0 st0) = Inr (c, i, e)"
    and up: "toUpperCase code' = c"
    and compl: "fst (completePairing cfg token now code' i' ipAddress
                 (snd (initiatePairing cfg draws sid tcheck now0 deviceName ip0 st0))) = Inr s'"
    by simp_all
  from compl obtain pc where
    pc: "map_get (toUpperCase code')
           (pairingCodes (snd (initiatePairing cfg draws sid tcheck now0 deviceName ip0 st0)))
         = Some pc"
      "pc_sessionId pc = i'" "s' = new_session cfg token now i' ipAddress pc"
    by (rule completePairing_result)
  from initiatePairing_result(2,4) [OF init] pc(1) up have "pc_sessionId pc = i"
    by auto
  with pc show "i' = i" and "s_id s' = i"
    by (simp_all add: new_session_def)
qed

theorem session_id_is_correlation_id_witness:
  "fst (initiatePairing default_config draws_A7K9M2 ''s1'' 0 0 (Some ''phone'') None
          empty_state) = Inr (''A7K9M2'', ''s1'', 300)
   \<and> map_option pc_sessionId (map_get ''A7K9M2'' (pairingCodes initiated)) = Some ''s1''
   \<and> fst (completePairing default_config ''t1'' 1000 ''a7k9m2'' ''s1'' None initiated)
       = Inr (new_session default_config ''t1'' 1000 ''s1'' None
                \<lparr>pc_code = ''A7K9M2'', pc_sessionId = ''s1'', pc_createdAt = 0,
                  pc_expiresAt = 300000, pc_deviceName = Some ''phone'', pc_ipAddress = None\<rparr>)
   \<and> s_id (new_session default_config ''t1'' 1000 ''s1'' None
             \<lparr>pc_code = ''A7K9M2'', pc_sessionId = ''s1'', pc_createdAt = 0,
               pc_expiresAt = 300000, pc_deviceName = Some ''phone'', pc_ipAddress = None\<rparr>)
       = ''s1''
   \<and> getSession ''s1''
       (snd (completePairing default_config ''t1'' 1000 ''a7k9m2'' ''s1'' None initiated))
       = Some (new_session default_config ''t1'' 1000 ''s1'' None
                \<lparr>pc_code = ''A7K9M2'', pc_sessionId = ''s1'', pc_createdAt = 0,
                  pc_expiresAt = 300000, pc_deviceName = Some ''phone'', pc_ipAddress = None\<rparr>)
   \<and> new_session default_config ''t1'' 1000 ''s1'' None
         \<lparr>pc_code = ''A7K9M2'', pc_sessionId = ''s1'', pc_createdAt = 0,
           pc_expiresAt = 300000, pc_deviceName = Some ''phone'', pc_ipAddress = None\<rparr>
       \<in> set (fst (getSessions 2000
                (snd (completePairing default_config ''t1'' 1000 ''a7k9m2'' ''s1'' None
                   initiated))))
   \<and> fst (revokeSession ''s1''
            (snd (completePairing default_config ''t1'' 1000 ''a7k9m2'' ''s1'' None initiated)))
   \<and> getSession ''s1''
       (snd (revokeSession ''s1''
          (snd (completePairing default_config ''t1'' 1000 ''a7k9m2'' ''s1'' None initiated))))
       = None"
proof -
  let ?pc = "\<lparr>pc_code = ''A7K9M2'', pc_sessionId = ''s1'', pc_createdAt = 0,
               pc_expiresAt = 300000, pc_deviceName = Some ''phone'', pc_ipAddress = None\<rparr>"
  let ?s = "new_session default_config ''t1'' 1000 ''s1'' None ?pc"
  have init: "fst (initiatePairing default_config draws_A7K9M2 ''s1'' 0 0 (Some ''phone'') None
                empty_state) = Inr (''A7K9M2'', ''s1'', 300)"
    by code_simp
  have st: "snd (initiatePairing default_config draws_A7K9M2 ''s1'' 0 0 (Some ''phone'') None
                empty_state) = initiated"
    by (simp add: initiated_def)
  have up: "toUpperCase ''a7k9m2'' = ''A7K9M2''"
    by code_simp
  have compl: "fst (completePairing default_config ''t1'' 1000 ''a7k9m2'' ''s1'' None initiated)
                 = Inr ?s"
    by code_simp
  have id: "s_id ?s = ''s1''"
    by (simp add: new_session_def)
  have live: "\<not> s_expiresAt ?s < 2000"
    by (simp add: new_session_def default_config_def)
  note T =
    session_id_is_correlation_id
      [where cfg = default_config and draws = draws_A7K9M2 and sid = "''s1''" and tcheck = 0
         and ?now0.0 = 0 and deviceName = "Some ''phone''" and ?ip0.0 = None
         and ?st0.0 = empty_state and c = "''A7K9M2''" and i = "''s1''" and e = 300
         and token = "''t1''" and now = 1000 and code = "''a7k9m2''" and sessionId = "''s1''"
         and ipAddress = None and st = initiated and s = ?s and t = 2000
         and code' = "''a7k9m2''" and i' = "''s1''" and s' = ?s]
  from T init st up compl id live show ?thesis
    by simp
qed

section \<open>\<open>validateSession\<close> answers \<open>null\<close>\<close>

lemma ids_ok_mem: "ids_ok st \<Longrightarrow> (k, s) \<in> set (sessions st) \<Longrightarrow> s_id s = k"
  by (auto simp: ids_ok_def list_all_iff)

text \<open>Every operation keeps the sessions under their own ids.\<close>

lemma ids_ok_empty: "ids_ok empty_state"
  by (simp add: ids_ok_def empty_state_def)

lemma ids_ok_subset:
  assumes "ids_ok st" and "set (sessions st') \<subseteq> set (sessions st)"
  shows "ids_ok st'"
  using assms by (auto simp: ids_ok_def list_all_iff)

lemma ids_ok_map_set:
  assumes "ids_ok st" and "s_id s = k" and "sessions st' = map_set k s (sessions st)"
  shows "ids_ok st'"
proof -
  have "set (sessions st') \<subseteq> insert (k, s) (set (sessions st))"
    using assms(3) set_map_set [of k s "sessions st"] by simp
  with assms(1,2) show ?thesis
    by (auto simp: ids_ok_def list_all_iff)
qed

lemma ids_ok_step:
  assumes ok: "ids_ok st"
  shows "ids_ok (step cfg x st)"
proof (cases x)
  case (Initiate draws sid tcheck now deviceName ipAddress)
  show ?thesis
    using ok by (rule ids_ok_subset) (simp add: Initiate sessions_initiatePairing)
next
  case (Complete token now code sessionId ipAddress)
  show ?thesis
  proof (cases "fst (completePairing cfg token now code sessionId ipAddress st)")
    case (Inl e)
    show ?thesis
      using ok by (rule ids_ok_subset) (simp add: Complete sessions_completePairing Inl)
  next
    case (Inr s)
    then have "s_id s = sessionId"
      by (auto elim!: completePairing_result simp: new_session_def)
    with ok show ?thesis
      by (rule ids_ok_map_set) (simp add: Complete sessions_completePairing Inr)
  qed
next
  case (Validate token now)
  show ?thesis
  proof (cases rule: validateSession_cases [where token = token and st = st and now = now])
    case none
    with ok show ?thesis by (simp add: Validate validateSession_none)
  next
    case (expired k s)
    show ?thesis
      using ok
      by (rule ids_ok_subset)
         (auto simp: Validate validateSession_expired [OF expired] sessions_saveSessions
            set_map_delete)
  next
    case (live k s)
    from live(1) have "(k, s) \<in> set (sessions st)"
      by (auto dest: find_Some_mem)
    with ok have "s_id (touch cfg now s) = k"
      by (simp add: touch_def ids_ok_mem)
    with ok show ?thesis
      by (rule ids_ok_map_set)
         (simp add: Validate validateSession_live [OF live] sessions_saveSessions)
  qed
next
  case (ListSessions now)
  show ?thesis
    using ok
    by (rule ids_ok_subset)
       (auto simp: ListSessions getSessions_def Let_def sessions_cleanupExpiredSessions)
next
  case (GetSession sessionId)
  with ok show ?thesis by simp
next
  case (Revoke sessionId)
  show ?thesis
    using ok
    by (rule ids_ok_subset) (auto simp: Revoke sessions_revokeSession set_map_delete)
next
  case RevokeAll
  show ?thesis
    using ok by (rule ids_ok_subset) (simp add: RevokeAll sessions_revokeAllSessions)
next
  case (SweepCodes now)
  show ?thesis
    using ok by (rule ids_ok_subset) (simp add: SweepCodes cleanupExpiredCodes_def)
next
  case (SweepSessions now)
  show ?thesis
    using ok
    by (rule ids_ok_subset) (auto simp: SweepSessions sessions_cleanupExpiredSessions)
next
  case (SweepRateLimits now)
  show ?thesis
    using ok by (rule ids_ok_subset) (simp add: SweepRateLimits cleanupRateLimits_def)
qed

lemma ids_ok_run: "ids_ok st \<Longrightarrow> ids_ok (run cfg xs st)"
  by (induction xs arbitrary: st) (simp_all add: ids_ok_step)







section \<open>What a successful \<open>validateSession\<close> changes\<close>

lemma find_map_set:
  "find P ps = Some (k, v) \<Longrightarrow> P (k, v') \<Longrightarrow> find P (map_set k v' ps) = Some (k, v')"
  by (induction ps) (auto split: if_splits)

lemma find_token_after_validate:
  assumes found: "find (\<lambda>p. s_token (snd p) = token) (sessions st) = Some (k, s)"
    and live: "\<not> s_expiresAt s < now"
  shows "find (\<lambda>p. s_token (snd p) = token) (sessions (snd (validateSession cfg token now st)))
         = Some (k, touch cfg now s)"
proof -
  from found have "s_token s = token"
    by (auto dest: find_Some_mem)
  then have "s_token (snd (k, touch cfg now s)) = token"
    by (simp add: touch_def)
  with found have "find (\<lambda>p. s_token (snd p) = token) (map_set k (touch cfg now s) (sessions st))
                   = Some (k, touch cfg now s)"
    by (rule find_map_set)
  with found live show ?thesis
    by (simp add: validateSession_live sessions_saveSessions)
qed

lemma validate_all_fixed_expiry:
  assumes fixed: "\<not> SESSION_SLIDING_EXPIRY cfg"
    and found: "find (\<lambda>p. s_token (snd p) = token) (sessions st) = Some (k, s)"
    and live: "\<forall>t \<in> set ts. \<not> s_expiresAt s < t"
  shows "fst (validate_all cfg token ts st) = map (\<lambda>t. Some (s\<lparr>s_lastUsedAt := t\<rparr>)) ts"
  using found live
proof (induction ts arbitrary: st s)
  case Nil
  show ?case by simp
next
  case (Cons t ts)
  from Cons.prems have now: "\<not> s_expiresAt s < t" by simp
  have same: "touch cfg t s = s\<lparr>s_lastUsedAt := t\<rparr>"
    using fixed by (simp add: touch_def)
  have r: "fst (validateSession cfg token t st) = Some (s\<lparr>s_lastUsedAt := t\<rparr>)"
    using Cons.prems(1) now by (simp add: validateSession_live same)
  have "find (\<lambda>p. s_token (snd p) = token) (sessions (snd (validateSession cfg token t st)))
        = Some (k, s\<lparr>s_lastUsedAt := t\<rparr>)"
    using find_token_after_validate [OF Cons.prems(1) now, of cfg] by (simp add: same)
  moreover have "\<forall>u \<in> set ts. \<not> s_expiresAt (s\<lparr>s_lastUsedAt := t\<rparr>) < u"
    using Cons.prems(2) by simp
  ultimately have
    "fst (validate_all cfg token ts (snd (validateSession cfg token t st))) =
       map (\<lambda>u. Some (s\<lparr>s_lastUsedAt := t\<rparr>\<lparr>s_lastUsedAt := u\<rparr>)) ts"
    by (rule Cons.IH)
  with r show ?case
    by (simp add: split_beta Let_def)
qed

lemma validate_twice_sliding:
  assumes sliding: "SESSION_SLIDING_EXPIRY cfg"
    and found: "find (\<lambda>p. s_token (snd p) = token) (sessions st) = Some (k, s)"
    and live: "\<not> s_expiresAt s < now"
    and d: "d \<le> SESSION_TOKEN_EXPIRY cfg * 1000"
  shows "fst (validate_all cfg token [now, now + d] st) =
           [Some (s\<lparr>s_lastUsedAt := now,
                    s_expiresAt := now + SESSION_TOKEN_EXPIRY cfg * 1000\<rparr>),
            Some (s\<lparr>s_lastUsedAt := now + d,
                    s_expiresAt := now + SESSION_TOKEN_EXPIRY cfg * 1000 + d\<rparr>)]"
proof -
  let ?s1 = "s\<lparr>s_lastUsedAt := now, s_expiresAt := now + SESSION_TOKEN_EXPIRY cfg * 1000\<rparr>"
  have t1: "touch cfg now s = ?s1"
    using sliding by (simp add: touch_def)
  have r1: "fst (validateSession cfg token now st) = Some ?s1"
    using found live by (simp add: validateSession_live t1)
  have f1: "find (\<lambda>p. s_token (snd p) = token)
              (sessions (snd (validateSession cfg token now st))) = Some (k, ?s1)"
    using find_token_after_validate [OF found live, of cfg] by (simp add: t1)
  have live1: "\<not> s_expiresAt ?s1 < now + d"
    using d by simp
  have "touch cfg (now + d) ?s1 =
          s\<lparr>s_lastUsedAt := now + d,
            s_expiresAt := now + SESSION_TOKEN_EXPIRY cfg * 1000 + d\<rparr>"
    using sliding by (simp add: touch_def)
  then have r2: "fst (validateSession cfg token (now + d)
                        (snd (validateSession cfg token now st))) =
                   Some (s\<lparr>s_lastUsedAt := now + d,
                           s_expiresAt := now + SESSION_TOKEN_EXPIRY cfg * 1000 + d\<rparr>)"
    using f1 live1 by (simp add: validateSession_live)
  from r1 r2 show ?thesis
    by (simp add: split_beta Let_def)
qed

text \<open>
  C7. Let a live session be the first that carries the token. Without sliding expiry,
  \<open>validateSession\<close> returns it with \<open>lastUsedAt\<close> set to the time of the call and
  every other field (\<open>id\<close>, \<open>token\<close>, \<open>deviceName\<close>, \<open>createdAt\<close>, \<open>expiresAt\<close>,
  \<open>ipAddress\<close>, \<open>userAgent\<close>) as it was, and stores it so; over any number of calls
  made before the expiry, each call returns the session with only \<open>lastUsedAt\<close>
  changed, so \<open>expiresAt\<close> stays what it was. With sliding expiry the call also sets
  \<open>expiresAt\<close> to the time of the call plus \<open>SESSION_TOKEN_EXPIRY\<close> seconds, in
  milliseconds; two calls \<open>d\<close> milliseconds apart (\<open>d\<close> within the lifetime) return
  sessions whose \<open>expiresAt\<close> differ by \<open>d\<close>.
\<close>

theorem validateSession_touch:
  assumes found: "find (\<lambda>p. s_token (snd p) = token) (sessions st) = Some (k, s)"
    and live: "\<not> s_expiresAt s < now"
  shows
    "(\<not> SESSION_SLIDING_EXPIRY cfg \<longrightarrow>
        fst (validateSession cfg token now st) = Some (s\<lparr>s_lastUsedAt := now\<rparr>)
        \<and> sessions (snd (validateSession cfg token now st)) =
            map_set k (s\<lparr>s_lastUsedAt := now\<rparr>) (sessions st)
        \<and> (\<forall>v. fst (validateSession cfg token now st) = Some v \<longrightarrow>
              s_lastUsedAt v = now \<and> s_id v = s_id s \<and> s_token v = s_token s
              \<and> s_deviceName v = s_deviceName s \<and> s_createdAt v = s_createdAt s
              \<and> s_expiresAt v = s_expiresAt s \<and> s_ipAddress v = s_ipAddress s
              \<and> s_userAgent v = s_userAgent s)
        \<and> ((\<forall>t \<in> set ts. \<not> s_expiresAt s < t) \<longrightarrow>
              fst (validate_all cfg token ts st) =
                map (\<lambda>t. Some (s\<lparr>s_lastUsedAt := t\<rparr>)) ts))
     \<and> (SESSION_SLIDING_EXPIRY cfg \<longrightarrow>
        fst (validateSession cfg token now st) =
          Some (s\<lparr>s_lastUsedAt := now,
                  s_expiresAt := now + SESSION_TOKEN_EXPIRY cfg * 1000\<rparr>)
        \<and> sessions (snd (validateSession cfg token now st)) =
            map_set k
              (s\<lparr>s_lastUsedAt := now, s_expiresAt := now + SESSION_TOKEN_EXPIRY cfg * 1000\<rparr>)
              (sessions st)
        \<and> (d \<le> SESSION_TOKEN_EXPIRY cfg * 1000 \<longrightarrow>
              fst (validate_all cfg token [now, now + d] st) =
                [Some (s\<lparr>s_lastUsedAt := now,
                         s_expiresAt := now + SESSION_TOKEN_EXPIRY cfg * 1000\<rparr>),
                 Some (s\<lparr>s_lastUsedAt := now + d,
                         s_expiresAt := now + SESSION_TOKEN_EXPIRY cfg * 1000 + d\<rparr>)]))"
proof (intro conjI impI allI)
  assume fixed: "\<not> SESSION_SLIDING_EXPIRY cfg"
  then have same: "touch cfg now s = s\<lparr>s_lastUsedAt := now\<rparr>"
    by (simp add: touch_def)
  with found live show r: "fst (validateSession cfg token now st) = Some (s\<lparr>s_lastUsedAt := now\<rparr>)"
    by (simp add: validateSession_live)
  from same found live
  show "sessions (snd (validateSession cfg token now st)) =
          map_set k (s\<lparr>s_lastUsedAt := now\<rparr>) (sessions st)"
    by (simp add: validateSession_live sessions_saveSessions)
  {
    fix v
    assume "fst (validateSession cfg token now st) = Some v"
    with r have v: "v = s\<lparr>s_lastUsedAt := now\<rparr>" by simp
    show "s_lastUsedAt v = now" and "s_id v = s_id s" and "s_token v = s_token s"
      and "s_deviceName v = s_deviceName s" and "s_createdAt v = s_createdAt s"
      and "s_expiresAt v = s_expiresAt s" and "s_ipAddress v = s_ipAddress s"
      and "s_userAgent v = s_userAgent s"
      by (simp_all add: v)
  }
  assume "\<forall>t \<in> set ts. \<not> s_expiresAt s < t"
  with fixed found
  show "fst (validate_all cfg token ts st) = map (\<lambda>t. Some (s\<lparr>s_lastUsedAt := t\<rparr>)) ts"
    by (rule validate_all_fixed_expiry)
next
  assume sliding: "SESSION_SLIDING_EXPIRY cfg"
  then have slid: "touch cfg now s =
      s\<lparr>s_lastUsedAt := now, s_expiresAt := now + SESSION_TOKEN_EXPIRY cfg * 1000\<rparr>"
    by (simp add: touch_def)
  with found live show "fst (validateSession cfg token now st) =
          Some (s\<lparr>s_lastUsedAt := now,
                  s_expiresAt := now + SESSION_TOKEN_EXPIRY cfg * 1000\<rparr>)"
    by (simp add: validateSession_live)
  from slid found live show "sessions (snd (validateSession cfg token now st)) =
            map_set k
              (s\<lparr>s_lastUsedAt := now, s_expiresAt := now + SESSION_TOKEN_EXPIRY cfg * 1000\<rparr>)
              (sessions st)"
    by (simp add: validateSession_live sessions_saveSessions)
  assume "d \<le> SESSION_TOKEN_EXPIRY cfg * 1000"
  with sliding found live
  show "fst (validate_all cfg token [now, now + d] st) =
                [Some (s\<lparr>s_lastUsedAt := now,
                         s_expiresAt := now + SESSION_TOKEN_EXPIRY cfg * 1000\<rparr>),
                 Some (s\<lparr>s_lastUsedAt := now + d,
                         s_expiresAt := now + SESSION_TOKEN_EXPIRY cfg * 1000 + d\<rparr>)]"
    by (rule validate_twice_sliding)
qed

text \<open>
  The session \<open>s1\<close> (token \<open>t1\<close>, created at 1000, expiring at 2000), validated at
  1500 and again at 1900: without sliding expiry \<open>expiresAt\<close> stays 2000; with it (a
  lifetime of one second) the two calls, 400 apart, give 2500 and 2900.
\<close>

theorem validateSession_touch_witness:
  "fst (validateSession config_short ''t1'' 1500 one_session) =
     Some \<lparr>s_id = ''s1'', s_token = ''t1'', s_deviceName = ''phone'', s_createdAt = 1000,
           s_lastUsedAt = 1500, s_expiresAt = 2000, s_ipAddress = None, s_userAgent = None\<rparr>
   \<and> map (map_option s_expiresAt) (fst (validate_all config_short ''t1'' [1500, 1900, 2000]
         one_session)) = [Some 2000, Some 2000, Some 2000]
   \<and> map (map_option s_lastUsedAt) (fst (validate_all config_short ''t1'' [1500, 1900, 2000]
         one_session)) = [Some 1500, Some 1900, Some 2000]
   \<and> fst (validateSession config_sliding ''t1'' 1500 one_session) =
     Some \<lparr>s_id = ''s1'', s_token = ''t1'', s_deviceName = ''phone'', s_createdAt = 1000,
           s_lastUsedAt = 1500, s_expiresAt = 2500, s_ipAddress = None, s_userAgent = None\<rparr>
   \<and> map (map_option s_expiresAt) (fst (validate_all config_sliding ''t1'' [1500, 1500 + 400]
         one_session)) = [Some 2500, Some 2900]"
proof -
  let ?s = "\<lparr>s_id = ''s1'', s_token = ''t1'', s_deviceName = ''phone'', s_createdAt = 1000,
             s_lastUsedAt = 1000, s_expiresAt = 2000, s_ipAddress = None,
             s_userAgent = None\<rparr>"
  have ss: "sessions one_session = [(''s1'', ?s)]"
    by code_simp
  have found: "find (\<lambda>p. s_token (snd p) = ''t1'') (sessions one_session) = Some (''s1'', ?s)"
    by (simp add: ss)
  have live: "\<not> s_expiresAt ?s < 1500"
    by simp
  have fixed: "\<not> SESSION_SLIDING_EXPIRY config_short"
    and sliding: "SESSION_SLIDING_EXPIRY config_sliding"
    and life: "SESSION_TOKEN_EXPIRY config_sliding * 1000 = 1000"
    by (simp_all add: config_sliding_def config_short_def default_config_def)
  note F = validateSession_touch
      [OF found live, where cfg = config_short and ts = "[1500, 1900, 2000]"]
  note S = validateSession_touch [OF found live, where cfg = config_sliding and d = 400]
  have a: "fst (validateSession config_short ''t1'' 1500 one_session) =
             Some (?s\<lparr>s_lastUsedAt := 1500\<rparr>)"
    using F fixed by blast
  have "\<forall>t \<in> set [1500, 1900, 2000 :: int]. \<not> s_expiresAt ?s < t"
    by simp
  with F fixed have b: "fst (validate_all config_short ''t1'' [1500, 1900, 2000] one_session) =
             map (\<lambda>t. Some (?s\<lparr>s_lastUsedAt := t\<rparr>)) [1500, 1900, 2000]"
    by blast
  have c: "fst (validateSession config_sliding ''t1'' 1500 one_session) =
             Some (?s\<lparr>s_lastUsedAt := 1500,
                      s_expiresAt := 1500 + SESSION_TOKEN_EXPIRY config_sliding * 1000\<rparr>)"
    using S sliding by blast
  have "(400 :: int) \<le> SESSION_TOKEN_EXPIRY config_sliding * 1000"
    by (simp add: life)
  with S sliding have d: "fst (validate_all config_sliding ''t1'' [1500, 1500 + 400] one_session) =
             [Some (?s\<lparr>s_lastUsedAt := 1500,
                       s_expiresAt := 1500 + SESSION_TOKEN_EXPIRY config_sliding * 1000\<rparr>),
              Some (?s\<lparr>s_lastUsedAt := 1500 + 400,
                       s_expiresAt := 1500 + SESSION_TOKEN_EXPIRY config_sliding * 1000 + 400\<rparr>)]"
    by blast
  show ?thesis
    unfolding a b c d by (simp add: life)
qed

section \<open>\<open>lastUsedAt\<close> over the life of a session\<close>

lemma map_get_wf_mem: "wf_map ps \<Longrightarrow> (k, v) \<in> set ps \<Longrightarrow> map_get k ps = Some v"
  by (induction ps) (auto simp: wf_map_def intro: rev_image_eqI)

lemma wf_sessions_step:
  assumes "wf_map (sessions st)"
  shows "wf_map (sessions (step cfg x st))"
proof (cases x)
  case (Initiate draws sid tcheck now deviceName ipAddress)
  with assms show ?thesis by (simp add: sessions_initiatePairing)
next
  case (Complete token now code sessionId ipAddress)
  with assms show ?thesis
    by (simp add: sessions_completePairing wf_map_set split: sum.split)
next
  case (Validate token now)
  show ?thesis
    using assms unfolding Validate
    by (cases rule: validateSession_cases [where token = token and st = st and now = now])
       (simp_all add: validateSession_none validateSession_expired validateSession_live
          sessions_saveSessions wf_map_set wf_map_delete)
next
  case (ListSessions now)
  with assms show ?thesis
    by (simp add: getSessions_def Let_def sessions_cleanupExpiredSessions wf_map_filter)
next
  case (GetSession sessionId)
  with assms show ?thesis by simp
next
  case (Revoke sessionId)
  with assms show ?thesis by (simp add: sessions_revokeSession wf_map_delete)
next
  case RevokeAll
  then show ?thesis by (simp add: sessions_revokeAllSessions wf_map_def)
next
  case (SweepCodes now)
  with assms show ?thesis by (simp add: cleanupExpiredCodes_def)
next
  case (SweepSessions now)
  with assms show ?thesis by (simp add: sessions_cleanupExpiredSessions wf_map_filter)
next
  case (SweepRateLimits now)
  with assms show ?thesis by (simp add: cleanupRateLimits_def)
qed

text \<open>Only the two branches that build or touch a session write a \<open>lastUsedAt\<close>.\<close>

lemma validateSession_entry:
  assumes "map_get k (sessions (snd (validateSession cfg token now st))) = Some s'"
  shows "map_get k (sessions st) = Some s'
         \<or> (fst (validateSession cfg token now st) = Some s' \<and> s_lastUsedAt s' = now)"
proof (cases rule: validateSession_cases [where token = token and st = st and now = now])
  case none
  with assms show ?thesis by (simp add: validateSession_none)
next
  case (expired key s)
  with assms show ?thesis
    by (simp add: validateSession_expired sessions_saveSessions map_get_map_delete
          split: if_splits)
next
  case (live key s)
  with assms show ?thesis
    by (auto simp: validateSession_live sessions_saveSessions map_get_map_set touch_def
          split: if_splits)
qed

lemma completePairing_entry:
  assumes "map_get k (sessions (snd (completePairing cfg token now code sessionId ipAddress st)))
           = Some s'"
  shows "map_get k (sessions st) = Some s'
         \<or> (k = sessionId
            \<and> fst (completePairing cfg token now code sessionId ipAddress st) = Inr s'
            \<and> s_lastUsedAt s' = now \<and> s_createdAt s' = now)"
proof (cases rule: completePairing_cases
    [where code = code and st = st and sessionId = sessionId and now = now and cfg = cfg])
  case (ok pc)
  with assms show ?thesis
    by (auto simp: completePairing_ok sessions_saveSessions map_get_map_set new_session_def
          split: if_splits)
qed (use assms in \<open>simp_all add: completePairing_absent completePairing_mismatch
       completePairing_expired completePairing_full\<close>)

lemma quiet_entry:
  assumes wf: "wf_map (sessions st)" and q: "quiet cfg x st"
    and after: "map_get k (sessions (step cfg x st)) = Some s'"
  shows "map_get k (sessions st) = Some s'"
proof (cases x)
  case (Initiate draws sid tcheck now deviceName ipAddress)
  with after show ?thesis by (simp add: sessions_initiatePairing)
next
  case (Complete token now code sessionId ipAddress)
  with q show ?thesis by simp
next
  case (Validate token now)
  with q have "fst (validateSession cfg token now st) = None" by simp
  with validateSession_entry [of k cfg token now st s'] after Validate show ?thesis
    by simp
next
  case (ListSessions now)
  with after wf show ?thesis
    by (auto simp: getSessions_def Let_def sessions_cleanupExpiredSessions
          dest: map_get_filter_wf)
next
  case (GetSession sessionId)
  with after show ?thesis by simp
next
  case (Revoke sessionId)
  with after show ?thesis
    by (simp add: sessions_revokeSession map_get_map_delete split: if_splits)
next
  case RevokeAll
  with after show ?thesis by (simp add: sessions_revokeAllSessions)
next
  case (SweepCodes now)
  with after show ?thesis by (simp add: cleanupExpiredCodes_def)
next
  case (SweepSessions now)
  with after wf show ?thesis
    by (auto simp: sessions_cleanupExpiredSessions dest: map_get_filter_wf)
next
  case (SweepRateLimits now)
  with after show ?thesis by (simp add: cleanupRateLimits_def)
qed

lemma step_entry:
  assumes wf: "wf_map (sessions st)"
    and after: "map_get k (sessions (step cfg x st)) = Some s'"
  shows "map_get k (sessions st) = Some s' \<or> s_lastUsedAt s' \<in> set (clock_of x)"
proof (cases "quiet cfg x st")
  case True
  with wf after show ?thesis by (simp add: quiet_entry)
next
  case False
  show ?thesis
  proof (cases x)
    case (Complete token now code sessionId ipAddress)
    with completePairing_entry [of k cfg token now code sessionId ipAddress st s'] after
    show ?thesis by auto
  next
    case (Validate token now)
    with validateSession_entry [of k cfg token now st s'] after
    show ?thesis by auto
  qed (use False in simp_all)
qed

lemma sorted_le_last: "sorted xs \<Longrightarrow> x \<in> set xs \<Longrightarrow> x \<le> last xs"
  by (induction xs) auto

lemma clock_bounds:
  assumes "sorted (t # clock_of x)"
  shows "t \<le> last (t # clock_of x)"
    and "u \<in> set (clock_of x) \<Longrightarrow> t \<le> u \<and> u \<le> last (t # clock_of x)"
proof -
  from assms show "t \<le> last (t # clock_of x)"
    by (rule sorted_le_last) simp
  assume u: "u \<in> set (clock_of x)"
  with assms have "t \<le> u" by simp
  moreover from assms have "u \<le> last (t # clock_of x)"
    by (rule sorted_le_last) (use u in simp)
  ultimately show "t \<le> u \<and> u \<le> last (t # clock_of x)" ..
qed

lemma last_used_by_step:
  assumes wf: "wf_map (sessions st)" and used: "last_used_by t st"
    and clock: "sorted (t # clock_of x)"
  shows "last_used_by (last (t # clock_of x)) (step cfg x st)"
  unfolding last_used_by_def list_all_iff
proof
  fix p
  assume p: "p \<in> set (sessions (step cfg x st))"
  have "wf_map (sessions (step cfg x st))"
    using wf by (rule wf_sessions_step)
  with p have "map_get (fst p) (sessions (step cfg x st)) = Some (snd p)"
    using map_get_wf_mem [of "sessions (step cfg x st)" "fst p" "snd p"] by simp
  with wf have "map_get (fst p) (sessions st) = Some (snd p)
                \<or> s_lastUsedAt (snd p) \<in> set (clock_of x)"
    by (rule step_entry)
  then show "s_lastUsedAt (snd p) \<le> last (t # clock_of x)"
  proof
    assume "map_get (fst p) (sessions st) = Some (snd p)"
    then have "(fst p, snd p) \<in> set (sessions st)" by (rule map_get_Some_mem)
    with used have "s_lastUsedAt (snd p) \<le> t"
      by (auto simp: last_used_by_def list_all_iff)
    with clock_bounds(1) [OF clock] show ?thesis by simp
  next
    assume "s_lastUsedAt (snd p) \<in> set (clock_of x)"
    with clock_bounds(2) [OF clock] show ?thesis by blast
  qed
qed

lemma floor_step:
  assumes wf: "wf_map (sessions st)" and clock: "sorted (t # clock_of x)"
    and b: "b \<le> t"
    and low: "\<And>s. map_get k (sessions st) = Some s \<Longrightarrow> b \<le> s_lastUsedAt s"
    and after: "map_get k (sessions (step cfg x st)) = Some s'"
  shows "b \<le> s_lastUsedAt s'"
proof -
  from wf after have "map_get k (sessions st) = Some s' \<or> s_lastUsedAt s' \<in> set (clock_of x)"
    by (rule step_entry)
  then show ?thesis
  proof
    assume "map_get k (sessions st) = Some s'"
    then show ?thesis by (rule low)
  next
    assume "s_lastUsedAt s' \<in> set (clock_of x)"
    with clock_bounds(2) [OF clock] have "t \<le> s_lastUsedAt s'" by blast
    with b show ?thesis by simp
  qed
qed

lemma run_append: "run cfg (ys @ zs) st = run cfg zs (run cfg ys st)"
  by (induction ys arbitrary: st) simp_all

lemma monotone_clock_append:
  "monotone_clock t (ys @ zs) \<longleftrightarrow>
     monotone_clock t ys \<and> monotone_clock (clock_after t ys) zs"
  by (induction ys arbitrary: t) auto

lemma run_invariant:
  assumes "wf_map (sessions st)" and "last_used_by t st" and "monotone_clock t xs"
  shows "wf_map (sessions (run cfg xs st)) \<and> last_used_by (clock_after t xs) (run cfg xs st)"
  using assms
proof (induction xs arbitrary: st t)
  case Nil
  then show ?case by simp
next
  case (Cons x xs)
  from Cons.prems have clock: "sorted (t # clock_of x)"
    and rest: "monotone_clock (last (t # clock_of x)) xs"
    by simp_all
  have "wf_map (sessions (step cfg x st))"
    using Cons.prems(1) by (rule wf_sessions_step)
  moreover have "last_used_by (last (t # clock_of x)) (step cfg x st)"
    using Cons.prems(1,2) clock by (rule last_used_by_step)
  ultimately show ?case
    using rest Cons.IH [of "step cfg x st" "last (t # clock_of x)"] by simp
qed

lemma run_floor:
  assumes "wf_map (sessions st)" and "last_used_by t st" and "monotone_clock t xs"
    and "b \<le> t"
    and "\<And>s. map_get k (sessions st) = Some s \<Longrightarrow> b \<le> s_lastUsedAt s"
    and "map_get k (sessions (run cfg xs st)) = Some s'"
  shows "b \<le> s_lastUsedAt s'"
  using assms
proof (induction xs arbitrary: st t)
  case Nil
  then show ?case by simp
next
  case (Cons x xs)
  from Cons.prems(3) have clock: "sorted (t # clock_of x)"
    and rest: "monotone_clock (last (t # clock_of x)) xs"
    by simp_all
  have wf': "wf_map (sessions (step cfg x st))"
    using Cons.prems(1) by (rule wf_sessions_step)
  have used': "last_used_by (last (t # clock_of x)) (step cfg x st)"
    using Cons.prems(1,2) clock by (rule last_used_by_step)
  have b': "b \<le> last (t # clock_of x)"
    using clock_bounds(1) [OF clock] Cons.prems(4) by simp
  have low': "\<And>s. map_get k (sessions (step cfg x st)) = Some s \<Longrightarrow> b \<le> s_lastUsedAt s"
    using Cons.prems(1) clock Cons.prems(4,5) by (rule floor_step)
  from Cons.prems(6) have "map_get k (sessions (run cfg xs (step cfg x st))) = Some s'"
    by simp
  with wf' used' rest b' low' show ?case
    by (rule Cons.IH)
qed

lemma run_monotone:
  assumes wf: "wf_map (sessions st)" and used: "last_used_by t st"
    and clock: "monotone_clock t (ys @ zs)"
    and before: "map_get k (sessions (run cfg ys st)) = Some s"
    and after: "map_get k (sessions (run cfg (ys @ zs) st)) = Some s'"
  shows "s_lastUsedAt s \<le> s_lastUsedAt s'"
proof -
  from clock have c1: "monotone_clock t ys" and c2: "monotone_clock (clock_after t ys) zs"
    by (simp_all add: monotone_clock_append)
  from run_invariant [OF wf used c1]
  have wf1: "wf_map (sessions (run cfg ys st))"
    and used1: "last_used_by (clock_after t ys) (run cfg ys st)"
    by simp_all
  from before have "(k, s) \<in> set (sessions (run cfg ys st))" by (rule map_get_Some_mem)
  with used1 have b: "s_lastUsedAt s \<le> clock_after t ys"
    by (auto simp: last_used_by_def list_all_iff)
  have low: "\<And>u. map_get k (sessions (run cfg ys st)) = Some u \<Longrightarrow>
               s_lastUsedAt s \<le> s_lastUsedAt u"
    using before by simp
  from after have "map_get k (sessions (run cfg zs (run cfg ys st))) = Some s'"
    by (simp add: run_append)
  with wf1 used1 c2 b low show ?thesis
    by (rule run_floor)
qed

lemma wf_sessions_empty: "wf_map (sessions empty_state)"
  by (simp add: wf_map_def empty_state_def)

lemma last_used_by_empty: "last_used_by t empty_state"
  by (simp add: last_used_by_def empty_state_def)

text \<open>
  C8. Sessions are told apart by the key they are stored under, and the keys of the
  session map are pairwise different (\<open>wf_map\<close>).
  \<^item> An operation that is neither \<open>completePairing\<close> nor a \<open>validateSession\<close>
    returning a session (\<open>initiatePairing\<close>, a \<open>validateSession\<close> returning
    \<open>null\<close>, \<open>getSessions\<close>, \<open>getSession\<close>, \<open>revokeSession\<close>,
    \<open>revokeAllSessions\<close>, each sweep) leaves every session it keeps exactly as it was.
  \<^item> After \<open>validateSession\<close> a stored session is as it was, or it is the session
    returned, with \<open>lastUsedAt\<close> the time of the call.
  \<^item> After \<open>completePairing\<close> a stored session is as it was, or it is the session
    just created, with \<open>lastUsedAt = createdAt\<close> the time of the call.
  \<^item> Under a monotone clock, with no session used later than the clock shows at the
    start: whenever a key holds a session at one point of a run and at a later point,
    \<open>lastUsedAt\<close> at the later point is not smaller. The same from the empty service.
\<close>

theorem lastUsedAt_monotone:
  "(wf_map (sessions st) \<and> quiet cfg x st
      \<and> map_get k (sessions (step cfg x st)) = Some s' \<longrightarrow>
      map_get k (sessions st) = Some s')
   \<and> (map_get k (sessions (snd (validateSession cfg token now st))) = Some s' \<longrightarrow>
        map_get k (sessions st) = Some s'
        \<or> (fst (validateSession cfg token now st) = Some s' \<and> s_lastUsedAt s' = now))
   \<and> (map_get k (sessions (snd (completePairing cfg token now code sessionId ipAddress st)))
        = Some s' \<longrightarrow>
        map_get k (sessions st) = Some s'
        \<or> (k = sessionId
           \<and> fst (completePairing cfg token now code sessionId ipAddress st) = Inr s'
           \<and> s_lastUsedAt s' = now \<and> s_createdAt s' = now))
   \<and> (wf_map (sessions st) \<and> last_used_by t st \<and> monotone_clock t (ys @ zs)
        \<and> map_get k (sessions (run cfg ys st)) = Some s
        \<and> map_get k (sessions (run cfg (ys @ zs) st)) = Some s'' \<longrightarrow>
        s_lastUsedAt s \<le> s_lastUsedAt s'')
   \<and> (monotone_clock t (ys @ zs)
        \<and> map_get k (sessions (run cfg ys empty_state)) = Some s
        \<and> map_get k (sessions (run cfg (ys @ zs) empty_state)) = Some s'' \<longrightarrow>
        s_lastUsedAt s \<le> s_lastUsedAt s'')"
proof (intro conjI impI)
  assume "wf_map (sessions st) \<and> quiet cfg x st
          \<and> map_get k (sessions (step cfg x st)) = Some s'"
  then show "map_get k (sessions st) = Some s'"
    using quiet_entry [of st cfg x k s'] by blast
next
  assume "map_get k (sessions (snd (validateSession cfg token now st))) = Some s'"
  then show "map_get k (sessions st) = Some s'
        \<or> (fst (validateSession cfg token now st) = Some s' \<and> s_lastUsedAt s' = now)"
    by (rule validateSession_entry)
next
  assume "map_get k (sessions (snd (completePairing cfg token now code sessionId ipAddress st)))
          = Some s'"
  then show "map_get k (sessions st) = Some s'
        \<or> (k = sessionId
           \<and> fst (completePairing cfg token now code sessionId ipAddress st) = Inr s'
           \<and> s_lastUsedAt s' = now \<and> s_createdAt s' = now)"
    by (rule completePairing_entry)
next
  assume "wf_map (sessions st) \<and> last_used_by t st \<and> monotone_clock t (ys @ zs)
        \<and> map_get k (sessions (run cfg ys st)) = Some s
        \<and> map_get k (sessions (run cfg (ys @ zs) st)) = Some s''"
  then show "s_lastUsedAt s \<le> s_lastUsedAt s''"
    using run_monotone [of st t ys zs k cfg s s''] by simp
next
  assume "monotone_clock t (ys @ zs)
        \<and> map_get k (sessions (run cfg ys empty_state)) = Some s
        \<and> map_get k (sessions (run cfg (ys @ zs) empty_state)) = Some s''"
  then show "s_lastUsedAt s \<le> s_lastUsedAt s''"
    using run_monotone [OF wf_sessions_empty last_used_by_empty, of t ys zs k cfg s s'']
    by simp
qed

text \<open>
  The session \<open>s1\<close>, created at 1000 by \<open>completePairing\<close>: listing at 1200 leaves
  it as it was; validated at 1500 and, after a listing and a validation of an unknown
  token, again at 1800, its \<open>lastUsedAt\<close> goes from 1000 to 1500 to 1800.
\<close>

theorem lastUsedAt_monotone_witness:
  "map_get ''s1'' (sessions one_session) =
     Some \<lparr>s_id = ''s1'', s_token = ''t1'', s_deviceName = ''phone'', s_createdAt = 1000,
           s_lastUsedAt = 1000, s_expiresAt = 2000, s_ipAddress = None, s_userAgent = None\<rparr>
   \<and> map_get ''s1'' (sessions (step config_short (ListSessions 1200) one_session)) =
     Some \<lparr>s_id = ''s1'', s_token = ''t1'', s_deviceName = ''phone'', s_createdAt = 1000,
           s_lastUsedAt = 1000, s_expiresAt = 2000, s_ipAddress = None, s_userAgent = None\<rparr>
   \<and> fst (validateSession config_short ''t1'' 1500 one_session) =
     Some \<lparr>s_id = ''s1'', s_token = ''t1'', s_deviceName = ''phone'', s_createdAt = 1000,
           s_lastUsedAt = 1500, s_expiresAt = 2000, s_ipAddress = None, s_userAgent = None\<rparr>
   \<and> fst (completePairing default_config ''t1'' 1000 ''A7K9M2'' ''s1'' None initiated) =
     Inr \<lparr>s_id = ''s1'', s_token = ''t1'', s_deviceName = ''phone'', s_createdAt = 1000,
          s_lastUsedAt = 1000, s_expiresAt = 2592001000, s_ipAddress = None,
          s_userAgent = None\<rparr>
   \<and> map_option s_lastUsedAt
        (map_get ''s1'' (sessions (run config_short [Validate ''t1'' 1500] one_session)))
      = Some 1500
   \<and> map_option s_lastUsedAt
        (map_get ''s1''
           (sessions (run config_short
              ([Validate ''t1'' 1500]
               @ [ListSessions 1600, Validate ''t0'' 1700, Validate ''t1'' 1800])
              one_session)))
      = Some 1800
   \<and> s_lastUsedAt
        \<lparr>s_id = ''s1'', s_token = ''t1'', s_deviceName = ''phone'', s_createdAt = 1000,
          s_lastUsedAt = 1500, s_expiresAt = 2000, s_ipAddress = None, s_userAgent = None\<rparr>
      \<le> s_lastUsedAt
        \<lparr>s_id = ''s1'', s_token = ''t1'', s_deviceName = ''phone'', s_createdAt = 1000,
          s_lastUsedAt = 1800, s_expiresAt = 2000, s_ipAddress = None, s_userAgent = None\<rparr>
   \<and> s_lastUsedAt
        \<lparr>s_id = ''s1'', s_token = ''t1'', s_deviceName = ''phone'', s_createdAt = 1000,
          s_lastUsedAt = 1000, s_expiresAt = 2000, s_ipAddress = None, s_userAgent = None\<rparr>
      \<le> s_lastUsedAt
        \<lparr>s_id = ''s1'', s_token = ''t1'', s_deviceName = ''phone'', s_createdAt = 1000,
          s_lastUsedAt = 1500, s_expiresAt = 2000, s_ipAddress = None, s_userAgent = None\<rparr>"
proof -
  let ?s = "\<lparr>s_id = ''s1'', s_token = ''t1'', s_deviceName = ''phone'', s_createdAt = 1000,
             s_lastUsedAt = 1000, s_expiresAt = 2000, s_ipAddress = None,
             s_userAgent = None\<rparr>"
  let ?n = "\<lparr>s_id = ''s1'', s_token = ''t1'', s_deviceName = ''phone'', s_createdAt = 1000,
             s_lastUsedAt = 1000, s_expiresAt = 2592001000, s_ipAddress = None,
             s_userAgent = None\<rparr>"
  let ?ps = "[Initiate draws_A7K9M2 ''s1'' 0 0 (Some ''phone'') None,
              Complete ''t1'' 1000 ''A7K9M2'' ''s1'' None]"
  let ?ys = "[Validate ''t1'' 1500]"
  let ?zs = "[ListSessions 1600, Validate ''t0'' 1700, Validate ''t1'' 1800]"
  have ss: "sessions one_session = [(''s1'', ?s)]"
    by code_simp
  have wf: "wf_map (sessions one_session)"
    by (simp add: ss wf_map_def)
  have used: "last_used_by 1000 one_session"
    by (simp add: ss last_used_by_def)
  have q: "quiet config_short (ListSessions 1200) one_session"
    by simp
  have listed: "map_get ''s1'' (sessions (step config_short (ListSessions 1200) one_session))
                  = Some ?s"
    by code_simp
  have clock: "monotone_clock 1000 (?ys @ ?zs)"
    by simp
  have mid: "map_get ''s1'' (sessions (run config_short ?ys one_session)) =
               Some (?s\<lparr>s_lastUsedAt := 1500\<rparr>)"
    by code_simp
  have fin: "map_get ''s1'' (sessions (run config_short (?ys @ ?zs) one_session)) =
               Some (?s\<lparr>s_lastUsedAt := 1800\<rparr>)"
    by code_simp
  note T = lastUsedAt_monotone [where st = one_session and cfg = config_short and k = "''s1''"]
  have a: "map_get ''s1'' (sessions one_session) = Some ?s"
    using T [where x = "ListSessions 1200" and s' = ?s] wf q listed by blast
  have b: "s_lastUsedAt (?s\<lparr>s_lastUsedAt := 1500\<rparr>) \<le> s_lastUsedAt (?s\<lparr>s_lastUsedAt := 1800\<rparr>)"
    using T [where t = 1000 and ys = ?ys and zs = ?zs and s = "?s\<lparr>s_lastUsedAt := 1500\<rparr>"
               and s'' = "?s\<lparr>s_lastUsedAt := 1800\<rparr>"]
      wf used clock mid fin by blast
  have touched: "map_get ''s1'' (sessions (snd (validateSession config_short ''t1'' 1500
                   one_session))) = Some (?s\<lparr>s_lastUsedAt := 1500\<rparr>)"
    by code_simp
  have "map_get ''s1'' (sessions one_session) \<noteq> Some (?s\<lparr>s_lastUsedAt := 1500\<rparr>)"
    by (simp add: ss)
  with T [where token = "''t1''" and now = 1500 and s' = "?s\<lparr>s_lastUsedAt := 1500\<rparr>"] touched
  have c: "fst (validateSession config_short ''t1'' 1500 one_session) =
             Some (?s\<lparr>s_lastUsedAt := 1500\<rparr>)"
    by blast
  have created: "map_get ''s1'' (sessions (snd (completePairing default_config ''t1'' 1000
                   ''A7K9M2'' ''s1'' None initiated))) = Some ?n"
    by code_simp
  have "map_get ''s1'' (sessions initiated) \<noteq> Some ?n"
    by code_simp
  with lastUsedAt_monotone
         [where st = initiated and cfg = default_config and k = "''s1''" and token = "''t1''"
            and now = 1000 and code = "''A7K9M2''" and sessionId = "''s1''"
            and ipAddress = None and s' = ?n] created
  have d: "fst (completePairing default_config ''t1'' 1000 ''A7K9M2'' ''s1'' None initiated)
             = Inr ?n"
    by blast
  have clock0: "monotone_clock 0 (?ps @ ?ys)"
    by simp
  have one: "run config_short ?ps empty_state = one_session"
    by (simp add: one_session_def)
  have two: "run config_short (?ps @ ?ys) empty_state = run config_short ?ys one_session"
    by (simp add: one_session_def)
  have e: "s_lastUsedAt ?s \<le> s_lastUsedAt (?s\<lparr>s_lastUsedAt := 1500\<rparr>)"
    using T [where t = 0 and ys = ?ps and zs = ?ys and s = ?s
               and s'' = "?s\<lparr>s_lastUsedAt := 1500\<rparr>"]
      clock0 a mid unfolding one two by blast
  from a b c d e listed show ?thesis
    unfolding mid fin by simp
qed

end
